theory Spec2Isabelle
  imports Main "HOL-Library.Sublist"
begin

section \<open>The syntax tree consumed by the transpiler\<close>

text \<open>
  The transpiler of \<^verbatim>\<open>transpiler/transpiler.go\<close> walks the tree that Go's
  \<^verbatim>\<open>go/parser\<close> produces.  The parser itself is a library; only the node types the
  transpiler inspects are modelled, each with the fields it reads.  A source position
  (\<^verbatim>\<open>token.Pos\<close>) is an \<^typ>\<open>int\<close>; positions are only compared, never computed with.
\<close>

text \<open>\<^verbatim>\<open>token.Token\<close>: the literal kinds, the two assignment tokens the statement emitter
  accepts, and every other token, carried by the spelling its \<^verbatim>\<open>String()\<close> method returns
  (\<open>tok_INT\<close> is \<^verbatim>\<open>token.INT\<close>, and so on).\<close>

datatype Token = tok_ILLEGAL | tok_INT | tok_FLOAT | tok_IMAG | tok_CHAR | tok_STRING
  | tok_ASSIGN | tok_DEFINE | tok_Other string

fun Token_String :: "Token \<Rightarrow> string" where
  "Token_String tok_ILLEGAL = ''ILLEGAL''"
| "Token_String tok_INT = ''INT''"
| "Token_String tok_FLOAT = ''FLOAT''"
| "Token_String tok_IMAG = ''IMAG''"
| "Token_String tok_CHAR = ''CHAR''"
| "Token_String tok_STRING = ''STRING''"
| "Token_String tok_ASSIGN = ''=''"
| "Token_String tok_DEFINE = '':=''"
| "Token_String (tok_Other s) = s"

text \<open>\<^verbatim>\<open>ast.ObjKind\<close>, the kind of the object an identifier denotes.\<close>

datatype ObjKind = Bad | Pkg | Con | Typ | Var | Fun | Lbl

text \<open>\<^verbatim>\<open>ast.Ident\<close>.  \<^verbatim>\<open>Obj\<close> is a pointer to an \<^verbatim>\<open>ast.Object\<close>, of which only \<^verbatim>\<open>Kind\<close>
  is read; \<open>None\<close> is the nil pointer.\<close>

record Ident =
  NamePos :: int
  Name :: string
  Obj :: "ObjKind option"

text \<open>\<^verbatim>\<open>ast.Expr\<close>: value and type expressions share one interface in Go.  The first
  integer of \<open>BasicLit\<close>, \<open>StarExpr\<close>, \<open>UnaryExpr\<close>, \<open>ArrayType\<close> and \<open>Ellipsis\<close> is the
  position field that \<^verbatim>\<open>Pos()\<close> returns; \<open>FuncType\<close>, \<open>InterfaceType\<close> carry their
  \<^verbatim>\<open>Pos()\<close> only, and \<open>OtherExpr\<close> stands for every other expression node.\<close>

datatype Expr =
    BasicLit int Token string
  | BinaryExpr Expr Token Expr
  | CallExpr Expr "Expr list"
  | Ident Ident
  | SelectorExpr Expr Ident
  | StarExpr int Expr
  | UnaryExpr int Token Expr
  | ArrayType int Expr
  | Ellipsis int Expr
  | FuncType int
  | InterfaceType int
  | OtherExpr int

fun Expr_Pos :: "Expr \<Rightarrow> int" where
  "Expr_Pos (BasicLit p k v) = p"
| "Expr_Pos (BinaryExpr x op y) = Expr_Pos x"
| "Expr_Pos (CallExpr f args) = Expr_Pos f"
| "Expr_Pos (Ident i) = NamePos i"
| "Expr_Pos (SelectorExpr x sel) = Expr_Pos x"
| "Expr_Pos (StarExpr p x) = p"
| "Expr_Pos (UnaryExpr p op x) = p"
| "Expr_Pos (ArrayType p elt) = p"
| "Expr_Pos (Ellipsis p elt) = p"
| "Expr_Pos (FuncType p) = p"
| "Expr_Pos (InterfaceType p) = p"
| "Expr_Pos (OtherExpr p) = p"

text \<open>\<^verbatim>\<open>ast.Stmt\<close>.  \<open>AssignStmt Lhs Tok Rhs\<close>; \<open>IfStmt If Cond Body Else\<close> with the
  statement list of the body block; \<open>ReturnStmt Return Results\<close>; \<open>BlockStmt Lbrace List\<close>;
  \<open>OtherStmt\<close> stands for every other statement node and carries its \<^verbatim>\<open>Pos()\<close>.\<close>

datatype Stmt =
    ExprStmt Expr
  | AssignStmt "Expr list" Token "Expr list"
  | IfStmt int Expr "Stmt list" "Stmt option"
  | ReturnStmt int "Expr list"
  | BlockStmt int "Stmt list"
  | OtherStmt int

text \<open>\<^verbatim>\<open>Pos()\<close> of an assignment is \<^verbatim>\<open>s.Lhs[0].Pos()\<close>, which panics on an empty
  left-hand side: \<open>None\<close>.\<close>

fun Stmt_Pos :: "Stmt \<Rightarrow> int option" where
  "Stmt_Pos (ExprStmt x) = Some (Expr_Pos x)"
| "Stmt_Pos (AssignStmt [] tok rhs) = None"
| "Stmt_Pos (AssignStmt (l # ls) tok rhs) = Some (Expr_Pos l)"
| "Stmt_Pos (IfStmt p cond body els) = Some p"
| "Stmt_Pos (ReturnStmt p results) = Some p"
| "Stmt_Pos (BlockStmt p list) = Some p"
| "Stmt_Pos (OtherStmt p) = Some p"

record Field =
  Field_Names :: "Ident list"
  Field_Type :: Expr

definition Field_Pos :: "Field \<Rightarrow> int" where
  "Field_Pos f = (case Field_Names f of [] \<Rightarrow> Expr_Pos (Field_Type f) | n # ns \<Rightarrow> NamePos n)"

text \<open>\<^verbatim>\<open>ast.FieldList\<close>: the position of the opening parenthesis (0 is \<^verbatim>\<open>token.NoPos\<close>)
  and the fields.\<close>

record FieldList =
  Opening :: int
  Fields :: "Field list"

definition FieldList_Pos :: "FieldList \<Rightarrow> int" where
  "FieldList_Pos fl =
     (if Opening fl \<noteq> 0 then Opening fl
      else case Fields fl of [] \<Rightarrow> 0 | f # fs \<Rightarrow> Field_Pos f)"

text \<open>\<^verbatim>\<open>ast.ValueSpec\<close>; \<^verbatim>\<open>Type\<close> is nil (\<open>None\<close>) when the declaration has no explicit
  type.\<close>

record ValueSpec =
  Names :: "Ident list"
  Type :: "Expr option"
  Values :: "Expr list"

definition ValueSpec_Pos :: "ValueSpec \<Rightarrow> int option" where
  "ValueSpec_Pos vs = (case Names vs of [] \<Rightarrow> None | n # ns \<Rightarrow> Some (NamePos n))"

text \<open>\<^verbatim>\<open>ast.ImportSpec\<close>: the optional local name and the position of the path literal.\<close>

record ImportSpec =
  LocalName :: "Ident option"
  PathPos :: int

definition ImportSpec_Pos :: "ImportSpec \<Rightarrow> int" where
  "ImportSpec_Pos s = (case LocalName s of None \<Rightarrow> PathPos s | Some n \<Rightarrow> NamePos n)"

datatype Spec = ValueSpec ValueSpec | ImportSpec ImportSpec | OtherSpec int

fun Spec_Pos :: "Spec \<Rightarrow> int option" where
  "Spec_Pos (ValueSpec vs) = ValueSpec_Pos vs"
| "Spec_Pos (ImportSpec s) = Some (ImportSpec_Pos s)"
| "Spec_Pos (OtherSpec p) = Some p"

text \<open>\<^verbatim>\<open>ast.FuncDecl\<close>: \<open>FuncPos\<close> is \<^verbatim>\<open>Type.Func\<close>, the value of \<^verbatim>\<open>Pos()\<close>;
  \<open>Params\<close> and \<open>Results\<close> are the two field lists of \<^verbatim>\<open>Type\<close>; \<open>Body\<close> is the
  left brace and the statement list of the body block, nil for a declaration without
  body.\<close>

record FuncDecl =
  Recv :: "FieldList option"
  FuncName :: Ident
  FuncPos :: int
  Params :: FieldList
  Results :: "FieldList option"
  Body :: "(int \<times> Stmt list) option"

datatype Decl = GenDecl int "Spec list" | FuncDecl FuncDecl | OtherDecl int

fun Decl_Pos :: "Decl \<Rightarrow> int" where
  "Decl_Pos (GenDecl p specs) = p"
| "Decl_Pos (FuncDecl fd) = FuncPos fd"
| "Decl_Pos (OtherDecl p) = p"

text \<open>\<^verbatim>\<open>ast.Comment\<close> and \<^verbatim>\<open>ast.CommentGroup\<close>; the position of a group is that of
  its first comment, \<^verbatim>\<open>g.List[0].Pos()\<close>, which panics on an empty group.\<close>

record Comment =
  Slash :: int
  Text :: string

record CommentGroup =
  List :: "Comment list"

definition CommentGroup_Pos :: "CommentGroup \<Rightarrow> int option" where
  "CommentGroup_Pos g = (case List g of [] \<Rightarrow> None | c # cs \<Rightarrow> Some (Slash c))"

text \<open>\<^verbatim>\<open>ast.File\<close>, as far as \<^verbatim>\<open>Transpile\<close> reads it.\<close>

record File =
  Imports :: "ImportSpec list"
  Decls :: "Decl list"
  Comments :: "CommentGroup list"

section \<open>Errors and the output sink\<close>

text \<open>
  An error value of the transpiler.  \<open>Panic\<close> is a run-time panic of the Go program
  (failed type assertion, nil dereference, index out of range): it unwinds every caller,
  so every function of the model passes it up unchanged.  \<open>WriteError\<close> is the error of a
  failed write.  \<open>PlainError\<close> is a \<^verbatim>\<open>fmt.Errorf\<close> message; \<open>LineError\<close> is the result of
  \<^verbatim>\<open>output.Errorf\<close>: the line number and the message.  The dump of the offending node that
  \<^verbatim>\<open>%#v\<close> and \<^verbatim>\<open>pretty.Formatter\<close> append to some messages is left out.
\<close>

datatype error = Panic string | WriteError | PlainError string | LineError int string

text \<open>
  \<^verbatim>\<open>io.Writer\<close> is an interface.  The model is a sink that holds what was written and
  an optional number of bytes it still accepts: \<open>room = None\<close> never fails, as
  \<^verbatim>\<open>bytes.Buffer\<close>; with \<open>room = Some k\<close> a write of more than \<open>k\<close> bytes stores the
  first \<open>k\<close> and returns an error.
\<close>

record Writer =
  written :: string
  room :: "nat option"

definition Write :: "Writer \<Rightarrow> string \<Rightarrow> Writer \<times> error option" where
  "Write w s =
     (case room w of
        None \<Rightarrow> (w\<lparr>written := written w @ s\<rparr>, None)
      | Some k \<Rightarrow>
          if length s \<le> k then (w\<lparr>written := written w @ s, room := Some (k - length s)\<rparr>, None)
          else (w\<lparr>written := written w @ take k s, room := Some 0\<rparr>, Some WriteError))"

text \<open>The \<^verbatim>\<open>output\<close> struct, here \<open>Output\<close> (\<^verbatim>\<open>lastNode\<close> is written but never read, and left out).\<close>

record Output =
  out :: Writer
  content :: string
  lines :: "int list"
  c :: "CommentGroup list"
  err :: "error option"

text \<open>The inner loop of \<^verbatim>\<open>Writef\<close>: the lines of one comment group, each followed by a
  newline; it stops at the first failed write.\<close>

fun writeComments :: "Writer \<Rightarrow> Comment list \<Rightarrow> Writer \<times> error option" where
  "writeComments w [] = (w, None)"
| "writeComments w (cm # cms) =
     (case Write w (Text cm @ [CHR 0x0A]) of
        (w', Some e) \<Rightarrow> (w', Some e)
      | (w', None) \<Rightarrow> writeComments w' cms)"

text \<open>
  The outer loop of \<^verbatim>\<open>Writef\<close> over the pending comment groups \<open>cs\<close>.  The result is
  the writer, the groups still pending, the value of \<^verbatim>\<open>o.err\<close>, and whether the loop ran to
  its end (\<open>True\<close>) or returned from \<^verbatim>\<open>Writef\<close> on a failed write (\<open>False\<close>).  The position
  of the node is only evaluated while a group is pending; \<open>None\<close> there is a panic.
\<close>

fun flushLoop :: "Writer \<Rightarrow> CommentGroup list \<Rightarrow> int option
    \<Rightarrow> Writer \<times> CommentGroup list \<times> error option \<times> bool" where
  "flushLoop w [] n = (w, [], None, True)"
| "flushLoop w (g # gs) n =
     (case n of
        None \<Rightarrow> (w, g # gs, Some (Panic ''index out of range''), False)
      | Some p \<Rightarrow>
         (case CommentGroup_Pos g of
            None \<Rightarrow> (w, g # gs, Some (Panic ''index out of range''), False)
          | Some q \<Rightarrow>
              if p > q then
                (case writeComments w (List g) of
                   (w', Some e) \<Rightarrow> (w', g # gs, Some e, False)
                 | (w', None) \<Rightarrow> flushLoop w' gs n)
              else (w, g # gs, None, True)))"

text \<open>
  \<^verbatim>\<open>Writef(n, format, a...)\<close>, with the formatted text in place of format and arguments.
  The second component of the result is a panic, if one occurred; a failed write is stored
  in \<open>err\<close> of the output, as in the source.
\<close>

definition Writef :: "int option \<Rightarrow> string \<Rightarrow> Output \<Rightarrow> Output \<times> error option" where
  "Writef n text outp =
     (if err outp = None then
        (case flushLoop (out outp) (c outp) n of
           (w, cs, Some (Panic m), fin) \<Rightarrow> (outp\<lparr>out := w, c := cs\<rparr>, Some (Panic m))
         | (w, cs, Some e, fin) \<Rightarrow> (outp\<lparr>out := w, c := cs, err := Some e\<rparr>, None)
         | (w, cs, None, fin) \<Rightarrow>
             (case Write w text of
                (w', Some e) \<Rightarrow> (outp\<lparr>out := w', c := cs, err := Some e\<rparr>, None)
              | (w', None) \<Rightarrow> (outp\<lparr>out := w', c := cs\<rparr>, None)))
      else (outp, None))"

fun findLineFrom :: "int list \<Rightarrow> int \<Rightarrow> int \<Rightarrow> int" where
  "findLineFrom [] p l = l"
| "findLineFrom (x # xs) p l = (if p \<ge> x then findLineFrom xs p (l + 1) else l)"

definition findLine :: "Output \<Rightarrow> int \<Rightarrow> int" where
  "findLine outp p = findLineFrom (lines outp) p 0 + 1"

text \<open>\<^verbatim>\<open>Errorf\<close>: the error with the line of the node; evaluating the position of the
  node may panic.\<close>

definition Errorf :: "Output \<Rightarrow> int option \<Rightarrow> string \<Rightarrow> error" where
  "Errorf outp n msg =
     (case n of None \<Rightarrow> Panic ''index out of range''
      | Some p \<Rightarrow> LineError (findLine outp p) msg)"

text \<open>
  Sequencing of two steps on the output: the second runs unless the first returned an
  error (\<^verbatim>\<open>if err != nil { return err }\<close>) or panicked.
\<close>

definition andThen :: "(Output \<Rightarrow> Output \<times> error option) \<Rightarrow> (Output \<Rightarrow> Output \<times> error option)
    \<Rightarrow> Output \<Rightarrow> Output \<times> error option" where
  "andThen f g outp = (case f outp of (o', None) \<Rightarrow> g o' | (o', Some e) \<Rightarrow> (o', Some e))"

section \<open>Type mapping and literal inference\<close>

text \<open>\<^verbatim>\<open>strings.Join\<close>.\<close>

fun strings_Join :: "string list \<Rightarrow> string \<Rightarrow> string" where
  "strings_Join [] sep = []"
| "strings_Join [x] sep = x"
| "strings_Join (x # y # ys) sep = x @ sep @ strings_Join (y # ys) sep"

fun tokenStr :: "Token \<Rightarrow> bool \<Rightarrow> string" where
  "tokenStr tok_INT isConst = (if isConst then ''const int'' else ''int'')"
| "tokenStr tok_STRING isConst = (if isConst then ''const char * const'' else ''const char *'')"
| "tokenStr kind isConst = []"

fun typeFromExpr :: "Expr \<Rightarrow> string" where
  "typeFromExpr (BasicLit p kind v) = tokenStr kind False"
| "typeFromExpr (Ident i) = Name i"
| "typeFromExpr e = []"

fun exprTypeToType :: "Output \<Rightarrow> Expr \<Rightarrow> string \<times> bool \<times> error option" where
  "exprTypeToType outp (ArrayType p elt) =
     (case exprTypeToType outp elt of
        (name, extra, Some e) \<Rightarrow> ([], False, Some e)
      | (name, extra, None) \<Rightarrow> (''*'' @ name, extra, None))"
| "exprTypeToType outp (Ellipsis p elt) =
     (case exprTypeToType outp elt of (name, extra, e) \<Rightarrow> (name, True, e))"
| "exprTypeToType outp (FuncType p) =
     ([], False, Some (Errorf outp (Some p) ''function pointers are not supported''))"
| "exprTypeToType outp (Ident i) = (Name i, False, None)"
| "exprTypeToType outp (InterfaceType p) = (''void *'', False, None)"
| "exprTypeToType outp (SelectorExpr x sel) =
     (case exprTypeToType outp x of
        (xn, extra, Some e) \<Rightarrow> ([], False, Some e)
      | (xn, extra, None) \<Rightarrow>
          (case exprTypeToType outp (Ident sel) of
             (sn, extra', Some e) \<Rightarrow> ([], False, Some e)
           | (sn, extra', None) \<Rightarrow> (xn @ ''.'' @ sn, False, None)))"
| "exprTypeToType outp (StarExpr p x) =
     (case exprTypeToType outp x of
        (xn, extra, Some e) \<Rightarrow> ([], extra, Some e)
      | (xn, extra, None) \<Rightarrow> (''*'' @ xn, extra, None))"
| "exprTypeToType outp n =
     ([], False, Some (Errorf outp (Some (Expr_Pos n)) ''unexpected param type''))"

text \<open>The \<^verbatim>\<open>%v\<close> rendering of a slice of identifiers: the names between brackets.\<close>

definition formatNames :: "Ident list \<Rightarrow> string" where
  "formatNames ns = ''['' @ strings_Join (map Name ns) '' '' @ '']''"

text \<open>
  \<^verbatim>\<open>guessType\<close>.  With no initializer the source asserts \<^verbatim>\<open>vs.Type.(*ast.Ident)\<close>
  without the comma-ok form: any other type expression, and the nil type, panic.
\<close>

definition guessType :: "ValueSpec \<Rightarrow> Token \<times> string \<times> error option" where
  "guessType vs =
     (if length (Values vs) > 1 then
        (tok_ILLEGAL, [], Some (PlainError (''unsupported # of values: '' @ formatNames (Names vs))))
      else case Values vs of
        [] \<Rightarrow>
          (case Type vs of
             Some (Ident i) \<Rightarrow>
               (if Name i = ''int'' then (tok_INT, ''0'', None)
                else if Name i = ''string'' then (tok_STRING, [CHR 0x22, CHR 0x22], None)
                else (tok_ILLEGAL, [], Some (PlainError (''unsupported type: '' @ Name i))))
           | _ \<Rightarrow> (tok_ILLEGAL, [], Some (Panic ''interface conversion'')))
      | v # vs' \<Rightarrow>
          (case v of
             BasicLit p kind val \<Rightarrow> (kind, val, None)
           | _ \<Rightarrow> (tok_ILLEGAL, [], Some (PlainError ''unsupported value: ''))))"

text \<open>\<^verbatim>\<open>isValueConst\<close>: \<^verbatim>\<open>vs.Names[0].Obj.Kind == ast.Con\<close>, with the index and the
  dereference that can panic.\<close>

definition isValueConst :: "ValueSpec \<Rightarrow> error + bool" where
  "isValueConst vs =
     (case Names vs of
        [] \<Rightarrow> Inl (Panic ''index out of range'')
      | n # ns \<Rightarrow>
          (case Obj n of
             None \<Rightarrow> Inl (Panic ''nil pointer dereference'')
           | Some k \<Rightarrow> Inr (k = Con)))"

text \<open>The message of an error, \<^verbatim>\<open>err.Error()\<close>.\<close>

fun decimal :: "nat \<Rightarrow> string" where
  "decimal n =
     (if n < 10 then [char_of (48 + n)] else decimal (n div 10) @ [char_of (48 + n mod 10)])"

definition formatInt :: "int \<Rightarrow> string" where
  "formatInt i = (if i < 0 then ''-'' @ decimal (nat (- i)) else decimal (nat i))"

fun error_Error :: "error \<Rightarrow> string" where
  "error_Error (Panic m) = m"
| "error_Error WriteError = ''short write''"
| "error_Error (PlainError m) = m"
| "error_Error (LineError l m) = ''line '' @ formatInt l @ '': '' @ m"

section \<open>Declarations of constants and variables\<close>

text \<open>The loop of \<^verbatim>\<open>handleValueSpec\<close> over the names: one line per name.\<close>

definition declLine :: "string \<Rightarrow> string \<Rightarrow> Ident \<Rightarrow> string" where
  "declLine typ lit name = strings_Join [typ, Name name, ''='', lit] '' '' @ '';'' @ [CHR 0x0A]"

fun writeDecls :: "int option \<Rightarrow> string \<Rightarrow> string \<Rightarrow> Ident list \<Rightarrow> Output
    \<Rightarrow> Output \<times> error option" where
  "writeDecls n typ lit [] outp = (outp, None)"
| "writeDecls n typ lit (name # names) outp =
     andThen (Writef n (declLine typ lit name)) (writeDecls n typ lit names) outp"

definition handleValueSpec :: "ValueSpec \<Rightarrow> Output \<Rightarrow> Output \<times> error option" where
  "handleValueSpec vs outp =
     (if length (Names vs) = 0 then
        (outp, Some (Errorf outp (ValueSpec_Pos vs)
                       (''unsupported # of value names: '' @ formatNames (Names vs))))
      else case guessType vs of
        (kind, lit, Some (Panic m)) \<Rightarrow> (outp, Some (Panic m))
      | (kind, lit, Some e) \<Rightarrow> (outp, Some (Errorf outp (ValueSpec_Pos vs) (error_Error e)))
      | (kind, lit, None) \<Rightarrow>
          (case isValueConst vs of
             Inl e \<Rightarrow> (outp, Some e)
           | Inr isConst \<Rightarrow>
               (let typ = tokenStr kind isConst in
                if length typ = 0 then
                  (outp, Some (Errorf outp (ValueSpec_Pos vs)
                                 (''unsupported literal kind: '' @ Token_String kind)))
                else writeDecls (ValueSpec_Pos vs) typ lit (Names vs) outp)))"

section \<open>Expressions\<close>

text \<open>
  \<^verbatim>\<open>handleExpr\<close>, with \<^verbatim>\<open>handleBinaryExpr\<close> and \<^verbatim>\<open>handleCallExpr\<close> unfolded in their
  cases.  \<open>handleArgs\<close> is the loop of \<^verbatim>\<open>handleCallExpr\<close> over the arguments: each is
  rendered into the buffer of the temporary output \<open>tmp\<close>, reset before every argument,
  and the rendered texts are collected.
\<close>

fun handleExpr :: "Expr \<Rightarrow> Output \<Rightarrow> Output \<times> error option"
  and handleArgs :: "Expr list \<Rightarrow> Output \<Rightarrow> string list \<Rightarrow> string list \<times> error option" where
  "handleExpr (BasicLit p kind v) outp = Writef (Some p) v outp"
| "handleExpr (BinaryExpr x op y) outp =
     (case handleExpr x outp of
        (o1, Some e) \<Rightarrow> (o1, Some e)
      | (o1, None) \<Rightarrow>
          (case Writef (Some (Expr_Pos (BinaryExpr x op y))) (Token_String op) o1 of
             (o2, Some e) \<Rightarrow> (o2, Some e)
           | (o2, None) \<Rightarrow> handleExpr y o2))"
| "handleExpr (CallExpr f args) outp =
     (case handleArgs args \<lparr>out = \<lparr>written = [], room = None\<rparr>, content = content outp,
                             lines = lines outp, c = [], err = None\<rparr> [] of
        (rendered, Some e) \<Rightarrow> (outp, Some e)
      | (rendered, None) \<Rightarrow>
          (case exprTypeToType outp f of
             (ident, extra, Some e) \<Rightarrow> (outp, Some e)
           | (ident, extra, None) \<Rightarrow>
               Writef (Some (Expr_Pos (CallExpr f args)))
                 (ident @ ''('' @ strings_Join rendered '', '' @ '')'') outp))"
| "handleExpr (Ident i) outp = Writef (Some (NamePos i)) (Name i) outp"
| "handleExpr (SelectorExpr x sel) outp =
     (case handleExpr x outp of
        (o1, Some e) \<Rightarrow> (o1, Some e)
      | (o1, None) \<Rightarrow>
          (case Writef (Some (Expr_Pos (SelectorExpr x sel))) ''.'' o1 of
             (o2, Some e) \<Rightarrow> (o2, Some e)
           | (o2, None) \<Rightarrow> handleExpr (Ident sel) o2))"
| "handleExpr (StarExpr p x) outp =
     (case Writef (Some p) ''*'' outp of
        (o1, Some e) \<Rightarrow> (o1, Some e)
      | (o1, None) \<Rightarrow> handleExpr x o1)"
| "handleExpr (UnaryExpr p op x) outp =
     (case Writef (Some p) (Token_String op) outp of
        (o1, Some e) \<Rightarrow> (o1, Some e)
      | (o1, None) \<Rightarrow> handleExpr x o1)"
| "handleExpr (ArrayType p elt) outp = (outp, Some (Errorf outp (Some p) ''unsupported expr''))"
| "handleExpr (Ellipsis p elt) outp = (outp, Some (Errorf outp (Some p) ''unsupported expr''))"
| "handleExpr (FuncType p) outp = (outp, Some (Errorf outp (Some p) ''unsupported expr''))"
| "handleExpr (InterfaceType p) outp = (outp, Some (Errorf outp (Some p) ''unsupported expr''))"
| "handleExpr (OtherExpr p) outp = (outp, Some (Errorf outp (Some p) ''unsupported expr''))"
| "handleArgs [] tmp rendered = (rendered, None)"
| "handleArgs (a # as) tmp rendered =
     (case handleExpr a (tmp\<lparr>out := (out tmp)\<lparr>written := []\<rparr>\<rparr>) of
        (tmp', Some e) \<Rightarrow> (rendered, Some e)
      | (tmp', None) \<Rightarrow> handleArgs as tmp' (rendered @ [written (out tmp')]))"

section \<open>Statements\<close>

text \<open>
  The loops of \<^verbatim>\<open>handleStmt\<close> over expression lists.  \<open>handleMore\<close> is the part of a
  loop with index \<open>i \<noteq> 0\<close>: a comma at the position of the expression, then the
  expression.  \<open>handleList\<close> is the whole loop over the right-hand sides of an assignment
  and over the results of a return.
\<close>

fun handleMore :: "Expr list \<Rightarrow> Output \<Rightarrow> Output \<times> error option" where
  "handleMore [] outp = (outp, None)"
| "handleMore (e # es) outp =
     andThen (Writef (Some (Expr_Pos e)) '', '')
       (andThen (handleExpr e) (handleMore es)) outp"

fun handleList :: "Expr list \<Rightarrow> Output \<Rightarrow> Output \<times> error option" where
  "handleList [] outp = (outp, None)"
| "handleList (e # es) outp = andThen (handleExpr e) (handleMore es) outp"

text \<open>
  The loop over the left-hand sides.  At index 0 of a definition the source writes
  \<^verbatim>\<open>typeFromExpr(st.Rhs[i])+" "\<close> first; the index panics on an empty right-hand side.
  (The text is passed as the format of \<^verbatim>\<open>Writef\<close>; identifiers and type names hold no
  \<^verbatim>\<open>%\<close>, so it is written as it is.)
\<close>

fun handleLhs :: "int option \<Rightarrow> Token \<Rightarrow> Expr list \<Rightarrow> Expr list \<Rightarrow> Output
    \<Rightarrow> Output \<times> error option" where
  "handleLhs n tok [] rhs outp = (outp, None)"
| "handleLhs n tok (l # ls) rhs outp =
     andThen
       (if tok = tok_DEFINE then
          (case rhs of
             [] \<Rightarrow> (\<lambda>o'. (o', Some (Panic ''index out of range'')))
           | r # rs \<Rightarrow> Writef n (typeFromExpr r @ '' ''))
        else (\<lambda>o'. (o', None)))
       (andThen (handleExpr l) (handleMore ls)) outp"

fun handleStmt :: "Stmt \<Rightarrow> Output \<Rightarrow> Output \<times> error option"
  and handleBlockStmt :: "Stmt list \<Rightarrow> Output \<Rightarrow> Output \<times> error option" where
  "handleStmt s outp =
     andThen (Writef (Stmt_Pos s) ''  '')
       (case s of
          ExprStmt x \<Rightarrow> andThen (handleExpr x) (Writef (Stmt_Pos s) ('';'' @ [CHR 0x0A]))
        | AssignStmt lhs tok rhs \<Rightarrow>
            if tok \<noteq> tok_DEFINE \<and> tok \<noteq> tok_ASSIGN then
              (\<lambda>o'. (o', Some (Errorf o' (Stmt_Pos s)
                                 (''unexpected assignment: '' @ Token_String tok))))
            else
              andThen (handleLhs (Stmt_Pos s) tok lhs rhs)
                (andThen (Writef (Stmt_Pos s) '' = '')
                  (andThen (handleList rhs) (Writef (Stmt_Pos s) ('';'' @ [CHR 0x0A]))))
        | IfStmt p cond body els \<Rightarrow>
            andThen (Writef (Some p) ''if ('')
              (andThen (handleExpr cond)
                (andThen (Writef (Some p) ('') {'' @ [CHR 0x0A]))
                  (andThen (handleBlockStmt body)
                    (andThen (Writef (Some p) ''}'')
                      (andThen
                        (case els of
                           None \<Rightarrow> (\<lambda>o'. (o', None))
                         | Some (BlockStmt lb list) \<Rightarrow>
                             andThen (Writef (Some p) ('' else {'' @ [CHR 0x0A]))
                               (andThen (handleBlockStmt list) (Writef (Some p) ''}''))
                         | Some e \<Rightarrow>
                             (\<lambda>o'. (o', Some (Errorf o' (Stmt_Pos e) ''unsupported else statement''))))
                        (Writef (Some p) [CHR 0x0A]))))))
        | ReturnStmt p results \<Rightarrow>
            andThen (Writef (Some p) ''return '')
              (andThen (handleList results) (Writef (Some p) ('';'' @ [CHR 0x0A])))
        | _ \<Rightarrow> (\<lambda>o'. (o', Some (Errorf o' (Stmt_Pos s) ''unsupported statement'')))) outp"
| "handleBlockStmt [] outp = (outp, None)"
| "handleBlockStmt (s # ss) outp = andThen (handleStmt s) (handleBlockStmt ss) outp"

section \<open>Functions and declarations\<close>

text \<open>The loop of \<^verbatim>\<open>extractArgumentsType\<close> over the fields; \<open>types\<close> is the slice
  built so far.  An error returns the nil slice.\<close>

fun argumentTypes :: "Output \<Rightarrow> Field list \<Rightarrow> string list \<Rightarrow> string list \<times> error option" where
  "argumentTypes outp [] types = (types, None)"
| "argumentTypes outp (arg # args) types =
     (case exprTypeToType outp (Field_Type arg) of
        (t, extra, Some e) \<Rightarrow> ([], Some e)
      | (t, extra, None) \<Rightarrow>
          if extra then ([], Some (Errorf outp (Some (Field_Pos arg)) ''unsupported param type''))
          else
            (let mult = (if length (Field_Names arg) = 0 then 1 else length (Field_Names arg))
             in argumentTypes outp args (types @ replicate mult t)))"

definition extractArgumentsType :: "Output \<Rightarrow> FuncDecl \<Rightarrow> string list \<times> error option" where
  "extractArgumentsType outp f =
     (case Recv f of
        None \<Rightarrow> argumentTypes outp (Fields (Params f)) []
      | Some recv \<Rightarrow>
          (case Fields recv of
             [r] \<Rightarrow>
               (case Field_Type r of
                  StarExpr p x \<Rightarrow> argumentTypes outp (r # Fields (Params f)) []
                | _ \<Rightarrow> argumentTypes outp (Fields (Params f)) [])
           | _ \<Rightarrow>
               ([], Some (Errorf outp (Some (FieldList_Pos recv))
                            ''expect only one receiver; please fix code''))))"

text \<open>\<^verbatim>\<open>handleFuncDecl\<close>.  A declaration without body has a nil \<^verbatim>\<open>fd.Body\<close>, which
  \<^verbatim>\<open>handleBlockStmt\<close> dereferences: a panic, after the signature is written.\<close>

definition handleFuncDecl :: "FuncDecl \<Rightarrow> Output \<Rightarrow> Output \<times> error option" where
  "handleFuncDecl fd outp =
     (case (case Results fd of
              None \<Rightarrow> (''void'', None)
            | Some res \<Rightarrow>
                (case Fields res of
                   [r] \<Rightarrow> (case exprTypeToType outp (Field_Type r) of (t, extra, e) \<Rightarrow> (t, e))
                 | _ \<Rightarrow> (''void'', Some (Errorf outp (Some (FuncPos fd))
                                           ''unsupported return type: ''))))
      of
        (ret, Some e) \<Rightarrow> (outp, Some e)
      | (ret, None) \<Rightarrow>
          (case extractArgumentsType outp fd of
             (params, Some e) \<Rightarrow> (outp, Some e)
           | (params, None) \<Rightarrow>
               andThen
                 (Writef (Some (FuncPos fd))
                    (ret @ '' '' @ Name (FuncName fd) @ ''('' @ strings_Join params '' '' @ '') {''
                       @ [CHR 0x0A]))
                 (case Body fd of
                    None \<Rightarrow> (\<lambda>o'. (o', Some (Panic ''nil pointer dereference'')))
                  | Some (lbrace, list) \<Rightarrow>
                      andThen (handleBlockStmt list) (Writef (Some lbrace) (''}'' @ [CHR 0x0A])))
                 outp))"

fun handleSpecs :: "Spec list \<Rightarrow> Output \<Rightarrow> Output \<times> error option" where
  "handleSpecs [] outp = (outp, None)"
| "handleSpecs (s # ss) outp =
     andThen
       (case s of
          ValueSpec vs \<Rightarrow> handleValueSpec vs
        | ImportSpec i \<Rightarrow> Writef (Spec_Pos s) []
        | OtherSpec p \<Rightarrow> (\<lambda>o'. (o', Some (Errorf o' (Spec_Pos s) ''unsupported spec''))))
       (handleSpecs ss) outp"

definition handleGenDecl :: "Spec list \<Rightarrow> Output \<Rightarrow> Output \<times> error option" where
  "handleGenDecl specs outp = handleSpecs specs outp"

fun handleDecl :: "Decl \<Rightarrow> Output \<Rightarrow> Output \<times> error option" where
  "handleDecl (GenDecl p specs) outp = handleGenDecl specs outp"
| "handleDecl (FuncDecl fd) outp = handleFuncDecl fd outp"
| "handleDecl (OtherDecl p) outp = (outp, Some (Errorf outp (Some p) ''unsupported decl''))"

section \<open>The translation of a file\<close>

text \<open>The offsets of the newline bytes of the source text, from offset \<open>i\<close> on.\<close>

fun newlineOffsets :: "string \<Rightarrow> int \<Rightarrow> int list" where
  "newlineOffsets [] i = []"
| "newlineOffsets (ch # cs) i =
     (if ch = CHR 0x0A then i # newlineOffsets cs (i + 1) else newlineOffsets cs (i + 1))"

fun writeImports :: "ImportSpec list \<Rightarrow> Output \<Rightarrow> Output \<times> error option" where
  "writeImports [] outp = (outp, None)"
| "writeImports (i # is) outp =
     andThen (Writef (Some (ImportSpec_Pos i)) []) (writeImports is) outp"

text \<open>The loop of \<^verbatim>\<open>Transpile\<close> over the declarations: it returns the error of a
  declaration at once, and leaves the loop when a write has failed; the result is then
  \<^verbatim>\<open>o.err\<close>.\<close>

fun handleDecls :: "Decl list \<Rightarrow> Output \<Rightarrow> Output \<times> error option" where
  "handleDecls [] outp = (outp, err outp)"
| "handleDecls (d # ds) outp =
     (case handleDecl d outp of
        (o', Some e) \<Rightarrow> (o', Some e)
      | (o', None) \<Rightarrow> if err o' \<noteq> None then (o', err o') else handleDecls ds o')"

text \<open>
  \<^verbatim>\<open>Transpile\<close>, from the point where the source text \<open>src\<close> has been read.  The parser
  is a library: its result on \<open>src\<close> is the argument \<open>parsed\<close>, either an error message or
  the file.  The result is the output at the end and the returned error.
\<close>

definition Transpile :: "Writer \<Rightarrow> string \<Rightarrow> string + File \<Rightarrow> Output \<times> error option" where
  "Transpile w src parsed =
     (let o0 = \<lparr>out = w, content = src, lines = newlineOffsets src 0, c = [], err = None\<rparr> in
      case parsed of
        Inl msg \<Rightarrow> (o0, Some (PlainError (''failed to parse: '' @ msg)))
      | Inr f \<Rightarrow>
          (case writeImports (Imports f) (o0\<lparr>c := Comments f\<rparr>) of
             (o1, Some e) \<Rightarrow> (o1, Some e)
           | (o1, None) \<Rightarrow> handleDecls (Decls f) o1))"

section \<open>The vocabulary of the properties\<close>

text \<open>The test of the flushing loop of \<^verbatim>\<open>Writef\<close>, \<^verbatim>\<open>n.Pos() > o.c[0].Pos()\<close>, for a
  node at position \<open>p\<close> and a comment group with at least one comment.\<close>

definition before :: "int \<Rightarrow> CommentGroup \<Rightarrow> bool" where
  "before p g = (case CommentGroup_Pos g of None \<Rightarrow> False | Some q \<Rightarrow> p > q)"

text \<open>The text of comments as \<^verbatim>\<open>Writef\<close> emits it: every comment followed by a newline.\<close>

definition commentLines :: "Comment list \<Rightarrow> string" where
  "commentLines cms = concat (map (\<lambda>cm. Text cm @ [CHR 0x0A]) cms)"

definition commentText :: "CommentGroup list \<Rightarrow> string" where
  "commentText gs = concat (map (\<lambda>g. commentLines (List g)) gs)"

text \<open>Two comment groups in source order: both hold a comment, and the first starts no
  later than the second.  The parser lists the groups of a file in this order.\<close>

definition inOrder :: "CommentGroup \<Rightarrow> CommentGroup \<Rightarrow> bool" where
  "inOrder g h =
     (case (CommentGroup_Pos g, CommentGroup_Pos h) of
        (Some p, Some q) \<Rightarrow> p \<le> q
      | _ \<Rightarrow> False)"

text \<open>
  An output in its regular state: no write has failed, the writer never fails (as the
  \<^verbatim>\<open>bytes.Buffer\<close> of the tests), and every pending comment group holds a comment, as
  every group of the parser does.
\<close>

definition good :: "Output \<Rightarrow> bool" where
  "good outp \<longleftrightarrow> err outp = None \<and> room (out outp) = None \<and> (\<forall>g\<in>set (c outp). List g \<noteq> [])"

text \<open>What every step of the translation does to the output: the written text only grows at
  its end, the pending comment groups are only dropped from the front, and a regular state
  stays regular.\<close>

definition follows :: "Output \<Rightarrow> Output \<Rightarrow> bool" where
  "follows outp outp' \<longleftrightarrow>
     prefix (written (out outp)) (written (out outp')) \<and> suffix (c outp') (c outp)
     \<and> (good outp \<longrightarrow> good outp')"

text \<open>The output after the text \<open>t\<close> has been appended to what was written.\<close>

definition emit :: "string \<Rightarrow> Output \<Rightarrow> Output" where
  "emit t outp = outp\<lparr>out := (out outp)\<lparr>written := written (out outp) @ t\<rparr>\<rparr>"

text \<open>A step that, on every output in its regular state, returns no error and leaves the
  output in a regular state.\<close>

definition safe :: "(Output \<Rightarrow> Output \<times> error option) \<Rightarrow> bool" where
  "safe f \<longleftrightarrow> (\<forall>outp. good outp \<longrightarrow> snd (f outp) = None \<and> good (fst (f outp)))"

text \<open>A step that, on every output in its regular state with no comment pending, appends
  exactly the text \<open>t\<close> and returns no error.\<close>

definition emits :: "(Output \<Rightarrow> Output \<times> error option) \<Rightarrow> string \<Rightarrow> bool" where
  "emits f t \<longleftrightarrow> (\<forall>outp. good outp \<and> c outp = [] \<longrightarrow> f outp = (emit t outp, None))"

section \<open>Properties of the output sink\<close>

lemma Write_unbounded: "room w = None \<Longrightarrow> Write w s = (w\<lparr>written := written w @ s\<rparr>, None)"
  by (simp add: Write_def)

lemma writeComments_unbounded:
  "room w = None \<Longrightarrow> writeComments w cms = (w\<lparr>written := written w @ commentLines cms\<rparr>, None)"
  by (induction cms arbitrary: w) (simp_all add: Write_unbounded commentLines_def)

lemma flushLoop_unbounded:
  "room w = None \<Longrightarrow> \<forall>g\<in>set cs. List g \<noteq> [] \<Longrightarrow>
   flushLoop w cs (Some p) =
     (w\<lparr>written := written w @ commentText (takeWhile (before p) cs)\<rparr>,
      dropWhile (before p) cs, None, True)"
proof (induction cs arbitrary: w)
  case Nil
  then show ?case by (simp add: commentText_def)
next
  case (Cons g gs)
  from Cons.prems obtain q where q: "CommentGroup_Pos g = Some q"
    by (cases "List g") (auto simp: CommentGroup_Pos_def)
  have wc: "writeComments w (List g) = (w\<lparr>written := written w @ commentLines (List g)\<rparr>, None)"
    using Cons.prems(1) by (rule writeComments_unbounded)
  have IH: "flushLoop (w\<lparr>written := written w @ commentLines (List g)\<rparr>) gs (Some p) =
     (w\<lparr>written := written w @ commentLines (List g) @ commentText (takeWhile (before p) gs)\<rparr>,
      dropWhile (before p) gs, None, True)"
    using Cons.IH[of "w\<lparr>written := written w @ commentLines (List g)\<rparr>"] Cons.prems by simp
  have bg: "before p g \<longleftrightarrow> p > q"
    using q by (simp add: before_def)
  show ?case
  proof (cases "p > q")
    case True
    then show ?thesis
      using q wc IH bg by (simp add: commentText_def)
  next
    case False
    then show ?thesis
      using q bg by (simp add: commentText_def)
  qed
qed

lemma Writef_unbounded:
  assumes "err outp = None" and "room (out outp) = None" and "\<forall>g\<in>set (c outp). List g \<noteq> []"
  shows "Writef (Some p) text outp =
     (outp\<lparr>out := (out outp)\<lparr>written := written (out outp)
                 @ commentText (takeWhile (before p) (c outp)) @ text\<rparr>,
            c := dropWhile (before p) (c outp)\<rparr>, None)"
  using assms by (simp add: Writef_def flushLoop_unbounded Write_unbounded)

lemma takeWhile_sorted_filter:
  assumes "sorted_wrt R xs" and "\<And>x y. R x y \<Longrightarrow> P y \<Longrightarrow> P x"
  shows "takeWhile P xs = filter P xs \<and> dropWhile P xs = filter (\<lambda>x. \<not> P x) xs"
  using assms(1)
proof (induction xs)
  case Nil
  then show ?case by simp
next
  case (Cons x xs)
  show ?case
  proof (cases "P x")
    case True
    with Cons show ?thesis by simp
  next
    case False
    have "\<forall>y\<in>set xs. \<not> P y"
      using Cons.prems False assms(2) by auto
    then have "filter P xs = []" "filter (\<lambda>x. \<not> P x) xs = xs"
      by (simp_all add: filter_empty_conv filter_id_conv)
    with False show ?thesis by simp
  qed
qed

lemma flushLoop_suffix: "suffix (fst (snd (flushLoop w cs n))) cs"
proof (induction cs arbitrary: w)
  case Nil
  then show ?case by simp
next
  case (Cons g gs)
  show ?case
  proof (cases n)
    case None
    then show ?thesis by simp
  next
    case (Some p)
    show ?thesis
    proof (cases "CommentGroup_Pos g")
      case None
      with Some show ?thesis by simp
    next
      case (Some q)
      have "suffix (fst (snd (flushLoop w' gs n))) (g # gs)" for w'
        using Cons.IH[of w'] by (rule suffix_ConsI)
      with Some \<open>n = Some p\<close> show ?thesis
        by (auto split: prod.splits option.splits)
    qed
  qed
qed

lemma Writef_cursor: "suffix (c (fst (Writef n text outp))) (c outp)"
  using flushLoop_suffix[of "out outp" "c outp" n]
  by (auto simp: Writef_def split: prod.splits option.splits error.splits)


lemma follows_refl: "follows outp outp"
  by (simp add: follows_def)

lemma follows_trans: "follows a b \<Longrightarrow> follows b d \<Longrightarrow> follows a d"
  unfolding follows_def by (meson prefix_order.trans suffix_order.trans)

lemma Write_grows: "prefix (written w) (written (fst (Write w s)))"
  by (simp add: Write_def split: option.splits)

lemma writeComments_grows: "prefix (written w) (written (fst (writeComments w cms)))"
proof (induction cms arbitrary: w)
  case Nil
  then show ?case by simp
next
  case (Cons cm cms)
  have 1: "prefix (written w) (written (fst (Write w (Text cm @ [CHR 0x0A]))))"
    by (rule Write_grows)
  show ?case
  proof (cases "Write w (Text cm @ [CHR 0x0A])")
    case (Pair w' e)
    with 1 Cons.IH[of w'] show ?thesis
      by (cases e) (auto intro: prefix_order.trans)
  qed
qed

lemma flushLoop_grows: "prefix (written w) (written (fst (flushLoop w cs n)))"
proof (induction cs arbitrary: w)
  case Nil
  then show ?case by simp
next
  case (Cons g gs)
  show ?case
  proof (cases "writeComments w (List g)")
    case (Pair w' e)
    with writeComments_grows[of w "List g"] have "prefix (written w) (written w')" by simp
    with Pair Cons.IH[of w'] show ?thesis
      by (auto split: option.splits intro: prefix_order.trans)
  qed
qed

lemma Writef_grows: "prefix (written (out outp)) (written (out (fst (Writef n text outp))))"
proof (cases "flushLoop (out outp) (c outp) n")
  case (fields w cs e fin)
  with flushLoop_grows[of "out outp" "c outp" n] have 1: "prefix (written (out outp)) (written w)"
    by simp
  have 2: "prefix (written w) (written (fst (Write w text)))"
    by (rule Write_grows)
  from 1 2 have 3: "prefix (written (out outp)) (written (fst (Write w text)))"
    by (rule prefix_order.trans)
  show ?thesis
    using fields 1 3
    by (auto simp: Writef_def split: option.splits error.splits prod.splits)
qed

lemma Writef_good:
  assumes "good outp"
  shows "good (fst (Writef n text outp))"
proof (cases n)
  case None
  then show ?thesis
    using assms by (cases "c outp") (auto simp: Writef_def good_def Write_unbounded)
next
  case (Some p)
  have "set (dropWhile (before p) (c outp)) \<subseteq> set (c outp)"
    by (auto dest: set_dropWhileD)
  then show ?thesis
    using assms Some by (auto simp: good_def Writef_unbounded)
qed

lemma Writef_follows: "follows outp (fst (Writef n text outp))"
  by (simp add: follows_def Writef_grows Writef_cursor Writef_good)

lemma Writef_no_error:
  "good outp \<Longrightarrow> snd (Writef (Some p) text outp) = None"
  by (simp add: good_def Writef_unbounded)

lemma andThen_follows:
  assumes "\<And>o'. follows o' (fst (f o'))" and "\<And>o'. follows o' (fst (g o'))"
  shows "follows outp (fst (andThen f g outp))"
proof (cases "f outp")
  case (Pair o1 e)
  with assms(1)[of outp] have 1: "follows outp o1" by simp
  show ?thesis
  proof (cases e)
    case None
    with Pair 1 assms(2)[of o1] show ?thesis
      by (auto simp: andThen_def intro: follows_trans)
  next
    case (Some a)
    with Pair 1 show ?thesis by (simp add: andThen_def)
  qed
qed


section \<open>Every step only appends text and only advances the comment cursor\<close>

lemma case_follows:
  assumes "follows outp (fst r)" and "\<And>o'. follows o' (fst (g o'))"
  shows "follows outp (fst (case r of (o', None) \<Rightarrow> g o' | (o', Some x) \<Rightarrow> (o', Some x)))"
proof (cases r)
  case (Pair o1 e)
  with assms(1) have "follows outp o1" by simp
  with Pair assms(2)[of o1] show ?thesis
    by (cases e) (auto intro: follows_trans)
qed

lemma handleExpr_follows: "follows outp (fst (handleExpr e outp))"
proof (induction e arbitrary: outp)
  case (BinaryExpr x op y)
  show ?case
    unfolding handleExpr.simps
    by (intro case_follows BinaryExpr.IH Writef_follows)
next
  case (CallExpr f args)
  show ?case
    by (auto simp: Writef_follows follows_refl split: prod.splits option.splits)
next
  case (SelectorExpr x sel)
  show ?case
    unfolding handleExpr.simps
    by (intro case_follows SelectorExpr.IH Writef_follows)
next
  case (StarExpr p x)
  show ?case
    unfolding handleExpr.simps
    by (intro case_follows StarExpr.IH Writef_follows)
next
  case (UnaryExpr p op x)
  show ?case
    unfolding handleExpr.simps
    by (intro case_follows UnaryExpr.IH Writef_follows)
qed (simp_all add: follows_refl Writef_follows)


lemma handleMore_follows: "follows outp (fst (handleMore es outp))"
proof (induction es arbitrary: outp)
  case Nil
  show ?case by (simp add: follows_refl)
next
  case (Cons e es)
  show ?case
    unfolding handleMore.simps
    by (intro andThen_follows Writef_follows handleExpr_follows Cons.IH)
qed

lemma handleList_follows: "follows outp (fst (handleList es outp))"
proof (cases es)
  case Nil
  then show ?thesis by (simp add: follows_refl)
next
  case (Cons e es')
  show ?thesis
    unfolding Cons handleList.simps
    by (intro andThen_follows handleExpr_follows handleMore_follows)
qed

lemma handleLhs_follows: "follows outp (fst (handleLhs n tok lhs rhs outp))"
proof (cases lhs)
  case Nil
  then show ?thesis by (simp add: follows_refl)
next
  case (Cons l ls)
  have "follows o' (fst ((if tok = tok_DEFINE then
          (case rhs of
             [] \<Rightarrow> (\<lambda>o'. (o', Some (Panic ''index out of range'')))
           | r # rs \<Rightarrow> Writef n (typeFromExpr r @ '' ''))
        else (\<lambda>o'. (o', None))) o'))" for o'
    by (cases rhs) (simp_all add: follows_refl Writef_follows)
  then show ?thesis
    unfolding Cons handleLhs.simps
    by (intro andThen_follows handleExpr_follows handleMore_follows)
qed

lemma handleStmt_follows:
  shows "follows outp (fst (handleStmt s outp))"
    and "follows outp (fst (handleBlockStmt ss outp))"
proof (induction s outp and ss outp rule: handleStmt_handleBlockStmt.induct)
  case (1 s outp)
  have body: "follows o' (fst ((case s of
          ExprStmt x \<Rightarrow> andThen (handleExpr x) (Writef (Stmt_Pos s) ('';'' @ [CHR 0x0A]))
        | AssignStmt lhs tok rhs \<Rightarrow>
            if tok \<noteq> tok_DEFINE \<and> tok \<noteq> tok_ASSIGN then
              (\<lambda>o'. (o', Some (Errorf o' (Stmt_Pos s)
                                 (''unexpected assignment: '' @ Token_String tok))))
            else
              andThen (handleLhs (Stmt_Pos s) tok lhs rhs)
                (andThen (Writef (Stmt_Pos s) '' = '')
                  (andThen (handleList rhs) (Writef (Stmt_Pos s) ('';'' @ [CHR 0x0A]))))
        | IfStmt p cond body els \<Rightarrow>
            andThen (Writef (Some p) ''if ('')
              (andThen (handleExpr cond)
                (andThen (Writef (Some p) ('') {'' @ [CHR 0x0A]))
                  (andThen (handleBlockStmt body)
                    (andThen (Writef (Some p) ''}'')
                      (andThen
                        (case els of
                           None \<Rightarrow> (\<lambda>o'. (o', None))
                         | Some (BlockStmt lb list) \<Rightarrow>
                             andThen (Writef (Some p) ('' else {'' @ [CHR 0x0A]))
                               (andThen (handleBlockStmt list) (Writef (Some p) ''}''))
                         | Some e \<Rightarrow>
                             (\<lambda>o'. (o', Some (Errorf o' (Stmt_Pos e) ''unsupported else statement''))))
                        (Writef (Some p) [CHR 0x0A]))))))
        | ReturnStmt p results \<Rightarrow>
            andThen (Writef (Some p) ''return '')
              (andThen (handleList results) (Writef (Some p) ('';'' @ [CHR 0x0A])))
        | _ \<Rightarrow> (\<lambda>o'. (o', Some (Errorf o' (Stmt_Pos s) ''unsupported statement'')))) o'))" for o'
  proof (cases s)
    case (ExprStmt x)
    show ?thesis
      unfolding ExprStmt Stmt.case
      by (intro andThen_follows handleExpr_follows Writef_follows)
  next
    case (AssignStmt lhs tok rhs)
    show ?thesis
    proof (cases "tok \<noteq> tok_DEFINE \<and> tok \<noteq> tok_ASSIGN")
      case True
      then show ?thesis unfolding AssignStmt Stmt.case by (simp add: follows_refl)
    next
      case False
      then show ?thesis
        unfolding AssignStmt Stmt.case if_not_P[OF False]
        by (intro andThen_follows handleLhs_follows handleList_follows Writef_follows)
    qed
  next
    case (IfStmt p cond body els)
    have b: "follows x (fst (handleBlockStmt body x))" for x
      using 1(1)[OF IfStmt] .
    have e: "follows x (fst ((case els of
                           None \<Rightarrow> (\<lambda>o'. (o', None))
                         | Some (BlockStmt lb list) \<Rightarrow>
                             andThen (Writef (Some p) ('' else {'' @ [CHR 0x0A]))
                               (andThen (handleBlockStmt list) (Writef (Some p) ''}''))
                         | Some e \<Rightarrow>
                             (\<lambda>o'. (o', Some (Errorf o' (Stmt_Pos e) ''unsupported else statement'')))) x))" for x
    proof (cases els)
      case None
      then show ?thesis by (simp add: follows_refl)
    next
      case (Some e)
      show ?thesis
      proof (cases e)
        case (BlockStmt lb list)
        have l: "follows x (fst (handleBlockStmt list x))" for x
          using 1(2)[OF IfStmt Some BlockStmt] .
        show ?thesis
          unfolding Some BlockStmt option.case Stmt.case
          by (intro andThen_follows Writef_follows l)
      qed (simp_all add: Some follows_refl)
    qed
    show ?thesis
      unfolding IfStmt Stmt.case
      by (intro andThen_follows handleExpr_follows Writef_follows b e)
  next
    case (ReturnStmt p results)
    show ?thesis
      unfolding ReturnStmt Stmt.case
      by (intro andThen_follows handleList_follows Writef_follows)
  qed (simp_all add: follows_refl)
  show ?case
    unfolding handleStmt.simps[of s]
    by (intro andThen_follows Writef_follows body)
next
  case (2 outp)
  show ?case by (simp add: follows_refl)
next
  case (3 s ss outp)
  show ?case
    unfolding handleBlockStmt.simps
    by (intro andThen_follows 3)
qed


lemma writeDecls_follows: "follows outp (fst (writeDecls n typ lit names outp))"
proof (induction names arbitrary: outp)
  case Nil
  show ?case by (simp add: follows_refl)
next
  case (Cons name names)
  show ?case
    unfolding writeDecls.simps
    by (intro andThen_follows Writef_follows Cons.IH)
qed

lemma handleValueSpec_follows: "follows outp (fst (handleValueSpec vs outp))"
  by (auto simp: handleValueSpec_def Let_def follows_refl writeDecls_follows
      split: prod.splits option.splits error.splits sum.splits)

lemma handleFuncDecl_follows: "follows outp (fst (handleFuncDecl fd outp))"
proof -
  have body: "follows o' (fst ((case Body fd of
                    None \<Rightarrow> (\<lambda>o'. (o', Some (Panic ''nil pointer dereference'')))
                  | Some (lbrace, list) \<Rightarrow>
                      andThen (handleBlockStmt list) (Writef (Some lbrace) (''}'' @ [CHR 0x0A]))) o'))"
    for o'
  proof (cases "Body fd")
    case None
    then show ?thesis by (simp add: follows_refl)
  next
    case (Some b)
    obtain lbrace list where b: "b = (lbrace, list)" by (cases b)
    show ?thesis
      unfolding Some b option.case prod.case
      by (intro andThen_follows handleStmt_follows(2) Writef_follows)
  qed
  obtain ret re where r: "(case Results fd of
              None \<Rightarrow> (''void'', None)
            | Some res \<Rightarrow>
                (case Fields res of
                   [r] \<Rightarrow> (case exprTypeToType outp (Field_Type r) of (t, extra, e) \<Rightarrow> (t, e))
                 | _ \<Rightarrow> (''void'', Some (Errorf outp (Some (FuncPos fd))
                                           ''unsupported return type: '')))) = (ret, re)"
    by fastforce
  obtain params pe where p: "extractArgumentsType outp fd = (params, pe)"
    by fastforce
  show ?thesis
  proof (cases re)
    case (Some e)
    then show ?thesis
      unfolding handleFuncDecl_def r by (simp add: follows_refl)
  next
    case None
    show ?thesis
    proof (cases pe)
      case (Some e)
      then show ?thesis
        unfolding handleFuncDecl_def r p None by (simp add: follows_refl)
    next
      case None2: None
      show ?thesis
        unfolding handleFuncDecl_def r p None None2 prod.case option.case
        by (intro andThen_follows Writef_follows body)
    qed
  qed
qed

lemma handleSpecs_follows: "follows outp (fst (handleSpecs specs outp))"
proof (induction specs arbitrary: outp)
  case Nil
  show ?case by (simp add: follows_refl)
next
  case (Cons s ss)
  have "follows o' (fst ((case s of
          ValueSpec vs \<Rightarrow> handleValueSpec vs
        | ImportSpec i \<Rightarrow> Writef (Spec_Pos s) []
        | OtherSpec p \<Rightarrow> (\<lambda>o'. (o', Some (Errorf o' (Spec_Pos s) ''unsupported spec'')))) o'))" for o'
    by (cases s) (simp_all add: follows_refl handleValueSpec_follows Writef_follows)
  then show ?case
    unfolding handleSpecs.simps
    by (intro andThen_follows Cons.IH)
qed

lemma handleDecl_follows: "follows outp (fst (handleDecl d outp))"
  by (cases d)
    (simp_all add: handleGenDecl_def handleSpecs_follows handleFuncDecl_follows follows_refl)

lemma writeImports_follows: "follows outp (fst (writeImports is outp))"
proof (induction "is" arbitrary: outp)
  case Nil
  show ?case by (simp add: follows_refl)
next
  case (Cons i "is")
  show ?case
    unfolding writeImports.simps
    by (intro andThen_follows Writef_follows Cons.IH)
qed

lemma handleDecls_follows: "follows outp (fst (handleDecls ds outp))"
proof (induction ds arbitrary: outp)
  case Nil
  show ?case by (simp add: follows_refl)
next
  case (Cons d ds)
  show ?case
  proof (cases "handleDecl d outp")
    case (Pair o1 e)
    with handleDecl_follows[of outp d] have 1: "follows outp o1" by simp
    from Cons.IH[of o1] 1 have "follows outp (fst (handleDecls ds o1))"
      by (blast intro: follows_trans)
    with Pair 1 show ?thesis by (cases e) auto
  qed
qed

lemma Transpile_follows:
  "follows \<lparr>out = w, content = src, lines = newlineOffsets src 0, c = Comments f, err = None\<rparr>
     (fst (Transpile w src (Inr f)))"
proof -
  let ?o0 = "\<lparr>out = w, content = src, lines = newlineOffsets src 0, c = Comments f, err = None\<rparr>"
  show ?thesis
  proof (cases "writeImports (Imports f) ?o0")
    case (Pair o1 e)
    with writeImports_follows[of ?o0 "Imports f"] have 1: "follows ?o0 o1" by simp
    from handleDecls_follows[of o1 "Decls f"] 1 have "follows ?o0 (fst (handleDecls (Decls f) o1))"
      by (blast intro: follows_trans)
    with Pair 1 show ?thesis by (cases e) (auto simp: Transpile_def)
  qed
qed


section \<open>Comments are flushed in source order\<close>

lemma Write_written: "Write w s = (w', None) \<Longrightarrow> written w' = written w @ s"
  by (auto simp: Write_def split: option.splits if_splits)

lemma writeComments_written:
  "writeComments w cms = (w', None) \<Longrightarrow> written w' = written w @ commentLines cms"
proof (induction cms arbitrary: w)
  case Nil
  then show ?case by (simp add: commentLines_def)
next
  case (Cons cm cms)
  obtain w1 e1 where w1: "Write w (Text cm @ [CHR 0x0A]) = (w1, e1)"
    by fastforce
  with Cons.prems have e1: "e1 = None" and rest: "writeComments w1 cms = (w', None)"
    by (cases e1; simp)+
  from w1 e1 have "written w1 = written w @ Text cm @ [CHR 0x0A]"
    by (simp add: Write_written)
  with Cons.IH[OF rest] show ?case
    by (simp add: commentLines_def)
qed

lemma flushLoop_written:
  assumes "\<forall>g\<in>set cs. List g \<noteq> []" and "flushLoop w cs (Some p) = (w', cs', None, fin)"
  shows "written w' = written w @ commentText (takeWhile (before p) cs)
         \<and> cs' = dropWhile (before p) cs"
  using assms
proof (induction cs arbitrary: w)
  case Nil
  then show ?case by (simp add: commentText_def)
next
  case (Cons g gs)
  from Cons.prems obtain q where q: "CommentGroup_Pos g = Some q"
    by (cases "List g") (auto simp: CommentGroup_Pos_def)
  have bg: "before p g \<longleftrightarrow> p > q"
    using q by (simp add: before_def)
  show ?case
  proof (cases "p > q")
    case True
    obtain w1 e1 where w1: "writeComments w (List g) = (w1, e1)"
      by fastforce
    with Cons.prems(2) q True have e1: "e1 = None" and rest: "flushLoop w1 gs (Some p) = (w', cs', None, fin)"
      by (cases e1; simp)+
    from w1 e1 have "written w1 = written w @ commentLines (List g)"
      by (simp add: writeComments_written)
    moreover from Cons.prems(1) have "\<forall>g\<in>set gs. List g \<noteq> []" by simp
    ultimately show ?thesis
      using Cons.IH[OF _ rest] True bg by (simp add: commentText_def)
  next
    case False
    with Cons.prems(2) q have "w' = w" and "cs' = g # gs"
      by simp_all
    with False bg show ?thesis
      by (simp add: commentText_def)
  qed
qed

lemma writeComments_error: "writeComments w cms = (w', Some e) \<Longrightarrow> e = WriteError"
proof (induction cms arbitrary: w)
  case Nil
  then show ?case by simp
next
  case (Cons cm cms)
  obtain w1 e1 where w1: "Write w (Text cm @ [CHR 0x0A]) = (w1, e1)"
    by fastforce
  show ?case
  proof (cases e1)
    case None
    with Cons w1 show ?thesis by simp
  next
    case (Some a)
    with w1 have "a = WriteError"
      by (auto simp: Write_def split: option.splits if_splits)
    with Cons.prems w1 Some show ?thesis by simp
  qed
qed

lemma flushLoop_error:
  assumes "\<forall>g\<in>set cs. List g \<noteq> []" and "flushLoop w cs (Some p) = (w', cs', Some e, fin)"
  shows "e = WriteError"
  using assms
proof (induction cs arbitrary: w)
  case Nil
  then show ?case by simp
next
  case (Cons g gs)
  from Cons.prems obtain q where q: "CommentGroup_Pos g = Some q"
    by (cases "List g") (auto simp: CommentGroup_Pos_def)
  obtain w1 e1 where w1: "writeComments w (List g) = (w1, e1)"
    by fastforce
  show ?case
  proof (cases "p > q")
    case True
    show ?thesis
    proof (cases e1)
      case None
      with Cons.prems(2) q True w1 have "flushLoop w1 gs (Some p) = (w', cs', Some e, fin)"
        by simp
      moreover from Cons.prems(1) have "\<forall>g\<in>set gs. List g \<noteq> []" by simp
      ultimately show ?thesis by (rule Cons.IH[rotated])
    next
      case (Some a)
      with w1 have "a = WriteError" by (simp add: writeComments_error)
      with Cons.prems(2) q True w1 Some show ?thesis by simp
    qed
  next
    case False
    with Cons.prems(2) q show ?thesis by simp
  qed
qed

lemma Writef_written:
  assumes "err (fst (Writef (Some p) text outp)) = None" and "\<forall>g\<in>set (c outp). List g \<noteq> []"
  shows "written (out (fst (Writef (Some p) text outp))) =
           written (out outp) @ commentText (takeWhile (before p) (c outp)) @ text
         \<and> c (fst (Writef (Some p) text outp)) = dropWhile (before p) (c outp)
         \<and> snd (Writef (Some p) text outp) = None"
proof -
  obtain w1 cs1 e1 fin where fl: "flushLoop (out outp) (c outp) (Some p) = (w1, cs1, e1, fin)"
    by (cases "flushLoop (out outp) (c outp) (Some p)") auto
  obtain w2 e2 where wr: "Write w1 text = (w2, e2)"
    by fastforce
  show ?thesis
  proof (cases "err outp")
    case (Some a)
    with assms(1) show ?thesis by (simp add: Writef_def)
  next
    case None
    show ?thesis
    proof (cases e1)
      case (Some a)
      with fl assms(2) have "a = WriteError" by (simp add: flushLoop_error)
      with assms(1) None fl Some show ?thesis by (simp add: Writef_def)
    next
      case None1: None
      from fl None1 assms(2)
      have 1: "written w1 = written (out outp) @ commentText (takeWhile (before p) (c outp))"
        and 2: "cs1 = dropWhile (before p) (c outp)"
        using flushLoop_written[of "c outp" "out outp" p w1 cs1 fin] by simp_all
      show ?thesis
      proof (cases e2)
        case (Some a)
        with assms(1) None fl None1 wr show ?thesis by (simp add: Writef_def)
      next
        case None2: None
        with wr have "written w2 = written w1 @ text" by (simp add: Write_written)
        with 1 2 None fl None1 wr None2 show ?thesis by (simp add: Writef_def)
      qed
    qed
  qed
qed

lemma inOrder_before: "inOrder g h \<Longrightarrow> before p h \<Longrightarrow> before p g"
  by (auto simp: inOrder_def before_def split: option.splits)




section \<open>Properties of the type mapping\<close>

text \<open>
  Claim C5.  For every identifier \<open>t\<close>, the pointer type and the array type over \<open>t\<close> are
  both mapped to the text \<open>*\<close> followed by the name of \<open>t\<close>, with the variadic flag false
  and no error; over \<open>int\<close> both give \<open>*int\<close>.
\<close>

theorem pointer_array_erasure:
  "exprTypeToType outp (StarExpr p (Ident t)) = (''*'' @ Name t, False, None)
   \<and> exprTypeToType outp (ArrayType q (Ident t)) = (''*'' @ Name t, False, None)
   \<and> exprTypeToType outp (StarExpr p (Ident \<lparr>NamePos = n, Name = ''int'', Obj = ob\<rparr>))
       = (''*int'', False, None)
   \<and> exprTypeToType outp (ArrayType q (Ident \<lparr>NamePos = n, Name = ''int'', Obj = ob\<rparr>))
       = (''*int'', False, None)"
  by simp

theorem pointer_array_erasure_witness:
  "exprTypeToType \<lparr>out = \<lparr>written = [], room = None\<rparr>, content = [], lines = [], c = [], err = None\<rparr>
     (StarExpr 5 (Ident \<lparr>NamePos = 6, Name = ''int'', Obj = None\<rparr>)) = (''*int'', False, None)
   \<and> exprTypeToType \<lparr>out = \<lparr>written = [], room = None\<rparr>, content = [], lines = [], c = [], err = None\<rparr>
     (ArrayType 5 (Ident \<lparr>NamePos = 7, Name = ''int'', Obj = None\<rparr>)) = (''*int'', False, None)"
  using pointer_array_erasure[of
      "\<lparr>out = \<lparr>written = [], room = None\<rparr>, content = [], lines = [], c = [], err = None\<rparr>"
      5 "\<lparr>NamePos = 6, Name = ''int'', Obj = None\<rparr>" 5 7 None]
    pointer_array_erasure[of
      "\<lparr>out = \<lparr>written = [], room = None\<rparr>, content = [], lines = [], c = [], err = None\<rparr>"
      5 "\<lparr>NamePos = 7, Name = ''int'', Obj = None\<rparr>" 5 7 None]
  by simp

lemma argumentTypes_variadic:
  assumes "\<exists>arg\<in>set args. \<exists>q e. Field_Type arg = Ellipsis q e"
  shows "snd (argumentTypes outp args types) \<noteq> None"
  using assms
proof (induction args arbitrary: types)
  case Nil
  then show ?case by simp
next
  case (Cons arg args)
  obtain t extra e where m: "exprTypeToType outp (Field_Type arg) = (t, extra, e)"
    by (cases "exprTypeToType outp (Field_Type arg)") auto
  show ?case
  proof (cases "e = None \<and> \<not> extra")
    case False
    with m show ?thesis by (cases e) auto
  next
    case True
    with m have "\<not> (\<exists>q e. Field_Type arg = Ellipsis q e)"
      by (auto split: prod.splits)
    with Cons.prems have "\<exists>arg\<in>set args. \<exists>q e. Field_Type arg = Ellipsis q e"
      by auto
    with Cons.IH m True show ?thesis by (simp add: Let_def)
  qed
qed

text \<open>
  Claim C4, as the code has it.  A variadic type is mapped to the spelling of its element
  type with the variadic flag true, and it passes on the error of the element type, if any.
  \<^verbatim>\<open>extractArgumentsType\<close> rejects the flag wherever it appears: a function with a variadic
  parameter at any position, the last included, is an error.
\<close>

theorem variadic_parameter_rejected:
  "exprTypeToType outp (Ellipsis p elt) =
      (fst (exprTypeToType outp elt), True, snd (snd (exprTypeToType outp elt)))
   \<and> ((\<exists>arg\<in>set (Fields (Params f)). \<exists>q e. Field_Type arg = Ellipsis q e) \<longrightarrow>
        snd (extractArgumentsType outp f) \<noteq> None)"
proof -
  have 1: "exprTypeToType outp (Ellipsis p elt) =
      (fst (exprTypeToType outp elt), True, snd (snd (exprTypeToType outp elt)))"
    by (simp split: prod.splits)
  have 2: "snd (extractArgumentsType outp f) \<noteq> None"
    if a: "\<exists>arg\<in>set (Fields (Params f)). \<exists>q e. Field_Type arg = Ellipsis q e"
  proof -
    have p: "snd (argumentTypes outp (Fields (Params f)) []) \<noteq> None"
      using a by (rule argumentTypes_variadic)
    have r: "snd (argumentTypes outp (r # Fields (Params f)) []) \<noteq> None" for r
      by (rule argumentTypes_variadic) (use a in auto)
    show ?thesis
      unfolding extractArgumentsType_def using p r
      by (auto simp del: argumentTypes.simps split: option.splits list.splits Expr.splits)
  qed
  from 1 2 show ?thesis by blast
qed

theorem variadic_parameter_rejected_witness:
  "exprTypeToType \<lparr>out = \<lparr>written = [], room = None\<rparr>, content = [], lines = [], c = [], err = None\<rparr>
     (Ellipsis 17 (Ident \<lparr>NamePos = 20, Name = ''int'', Obj = None\<rparr>)) = (''int'', True, None)
   \<and> snd (extractArgumentsType
        \<lparr>out = \<lparr>written = [], room = None\<rparr>, content = [], lines = [], c = [], err = None\<rparr>
        \<lparr>Recv = None, FuncName = \<lparr>NamePos = 6, Name = ''f'', Obj = Some Fun\<rparr>, FuncPos = 1,
          Params = \<lparr>Opening = 7, Fields =
            [\<lparr>Field_Names = [\<lparr>NamePos = 8, Name = ''a'', Obj = Some Var\<rparr>],
              Field_Type = Ident \<lparr>NamePos = 10, Name = ''int'', Obj = None\<rparr>\<rparr>,
             \<lparr>Field_Names = [\<lparr>NamePos = 15, Name = ''b'', Obj = Some Var\<rparr>],
              Field_Type = Ellipsis 17 (Ident \<lparr>NamePos = 20, Name = ''int'', Obj = None\<rparr>)\<rparr>]\<rparr>,
          Results = None, Body = Some (25, [])\<rparr>) \<noteq> None"
proof -
  let ?o = "\<lparr>out = \<lparr>written = [], room = None\<rparr>, content = [], lines = [], c = [], err = None\<rparr>"
  let ?f = "\<lparr>Recv = None, FuncName = \<lparr>NamePos = 6, Name = ''f'', Obj = Some Fun\<rparr>, FuncPos = 1,
       Params = \<lparr>Opening = 7, Fields =
          [\<lparr>Field_Names = [\<lparr>NamePos = 8, Name = ''a'', Obj = Some Var\<rparr>],
            Field_Type = Ident \<lparr>NamePos = 10, Name = ''int'', Obj = None\<rparr>\<rparr>,
           \<lparr>Field_Names = [\<lparr>NamePos = 15, Name = ''b'', Obj = Some Var\<rparr>],
            Field_Type = Ellipsis 17 (Ident \<lparr>NamePos = 20, Name = ''int'', Obj = None\<rparr>)\<rparr>]\<rparr>,
       Results = None, Body = Some (25, [])\<rparr>"
  have h: "\<exists>arg\<in>set (Fields (Params ?f)). \<exists>q e. Field_Type arg = Ellipsis q e"
    by simp
  from variadic_parameter_rejected[of ?o 17 "Ident \<lparr>NamePos = 20, Name = ''int'', Obj = None\<rparr>" ?f] h
  have "exprTypeToType ?o (Ellipsis 17 (Ident \<lparr>NamePos = 20, Name = ''int'', Obj = None\<rparr>)) =
      (fst (exprTypeToType ?o (Ident \<lparr>NamePos = 20, Name = ''int'', Obj = None\<rparr>)), True,
       snd (snd (exprTypeToType ?o (Ident \<lparr>NamePos = 20, Name = ''int'', Obj = None\<rparr>))))
    \<and> snd (extractArgumentsType ?o ?f) \<noteq> None"
    by blast
  then show ?thesis by simp
qed

text \<open>The function \<^verbatim>\<open>func f(a ...int)\<close>: the variadic parameter is the last one, and
  \<^verbatim>\<open>extractArgumentsType\<close> returns the error all the same.\<close>

theorem trailing_variadic_counterexample:
  "extractArgumentsType \<lparr>out = \<lparr>written = [], room = None\<rparr>, content = [], lines = [], c = [], err = None\<rparr>
     \<lparr>Recv = None, FuncName = \<lparr>NamePos = 6, Name = ''f'', Obj = Some Fun\<rparr>, FuncPos = 1,
       Params = \<lparr>Opening = 7, Fields =
          [\<lparr>Field_Names = [\<lparr>NamePos = 8, Name = ''a'', Obj = Some Var\<rparr>],
            Field_Type = Ellipsis 10 (Ident \<lparr>NamePos = 13, Name = ''int'', Obj = None\<rparr>)\<rparr>]\<rparr>,
       Results = None, Body = Some (18, [])\<rparr>
   = ([], Some (LineError 1 ''unsupported param type''))"
  by (simp add: extractArgumentsType_def Errorf_def findLine_def Field_Pos_def)


section \<open>Properties of the declarations of constants and variables\<close>

text \<open>
  Claim C6.  For a value spec without initializer whose explicit type is an identifier,
  \<^verbatim>\<open>guessType\<close> returns the kind \<open>INT\<close> and the literal \<open>0\<close> for \<open>int\<close>, the kind
  \<open>STRING\<close> and the literal of the empty string for \<open>string\<close>, and the error
  "unsupported type" with the name for every other identifier.
\<close>

theorem guessType_zero_value:
  assumes "Values vs = []" and "Type vs = Some (Ident i)"
  shows "guessType vs =
     (if Name i = ''int'' then (tok_INT, ''0'', None)
      else if Name i = ''string'' then (tok_STRING, [CHR 0x22, CHR 0x22], None)
      else (tok_ILLEGAL, [], Some (PlainError (''unsupported type: '' @ Name i))))"
  using assms by (simp add: guessType_def)

theorem guessType_zero_value_witness:
  "guessType \<lparr>Names = [\<lparr>NamePos = 5, Name = ''a'', Obj = Some Var\<rparr>],
      Type = Some (Ident \<lparr>NamePos = 7, Name = ''int'', Obj = None\<rparr>), Values = []\<rparr>
     = (tok_INT, ''0'', None)
   \<and> guessType \<lparr>Names = [\<lparr>NamePos = 5, Name = ''a'', Obj = Some Var\<rparr>],
      Type = Some (Ident \<lparr>NamePos = 7, Name = ''string'', Obj = None\<rparr>), Values = []\<rparr>
     = (tok_STRING, [CHR 0x22, CHR 0x22], None)
   \<and> guessType \<lparr>Names = [\<lparr>NamePos = 5, Name = ''a'', Obj = Some Var\<rparr>],
      Type = Some (Ident \<lparr>NamePos = 7, Name = ''bool'', Obj = None\<rparr>), Values = []\<rparr>
     = (tok_ILLEGAL, [], Some (PlainError ''unsupported type: bool''))"
proof -
  let ?vs = "\<lambda>t. \<lparr>Names = [\<lparr>NamePos = 5, Name = ''a'', Obj = Some Var\<rparr>],
      Type = Some (Ident \<lparr>NamePos = 7, Name = t, Obj = None\<rparr>), Values = []\<rparr>"
  have v: "Values (?vs t) = []" for t by simp
  have t: "Type (?vs t) = Some (Ident \<lparr>NamePos = 7, Name = t, Obj = None\<rparr>)" for t by simp
  from guessType_zero_value[OF v t, of "''int''"] guessType_zero_value[OF v t, of "''string''"]
    guessType_zero_value[OF v t, of "''bool''"]
  show ?thesis by simp
qed

text \<open>
  Claim C8, as the code has it.  A value spec with at least one name fails with the error
  of \<^verbatim>\<open>guessType\<close> at the line of its first name, and writes nothing, when it has more than
  one initializer or when its single initializer is not a literal.  The number of names
  is not tested: more than one name alone is no error.
\<close>

theorem unsupported_initializer:
  assumes "Names vs \<noteq> []"
    and "length (Values vs) > 1 \<or> (\<exists>v. Values vs = [v] \<and> (\<forall>p k t. v \<noteq> BasicLit p k t))"
  shows "handleValueSpec vs outp =
     (outp, Some (LineError (findLine outp (NamePos (hd (Names vs))))
        (if length (Values vs) > 1 then ''unsupported # of values: '' @ formatNames (Names vs)
         else ''unsupported value: '')))"
proof -
  from assms(1) obtain n ns where n: "Names vs = n # ns"
    by (cases "Names vs") auto
  from assms(2) show ?thesis
  proof
    assume "length (Values vs) > 1"
    then show ?thesis
      using n by (simp add: handleValueSpec_def guessType_def Errorf_def ValueSpec_Pos_def)
  next
    assume "\<exists>v. Values vs = [v] \<and> (\<forall>p k t. v \<noteq> BasicLit p k t)"
    then obtain v where v: "Values vs = [v]" "\<forall>p k t. v \<noteq> BasicLit p k t"
      by blast
    then have "guessType vs = (tok_ILLEGAL, [], Some (PlainError ''unsupported value: ''))"
      by (cases v) (simp_all add: guessType_def)
    then show ?thesis
      using n v(1) by (simp add: handleValueSpec_def Errorf_def ValueSpec_Pos_def)
  qed
qed

theorem unsupported_initializer_witness:
  "handleValueSpec
     \<lparr>Names = [\<lparr>NamePos = 5, Name = ''a'', Obj = Some Var\<rparr>], Type = None,
       Values = [BinaryExpr (BasicLit 9 tok_INT ''1'') (tok_Other ''+'') (BasicLit 13 tok_INT ''2'')]\<rparr>
     \<lparr>out = \<lparr>written = [], room = None\<rparr>, content = ''var a = 1 + 2'', lines = [], c = [], err = None\<rparr>
   = (\<lparr>out = \<lparr>written = [], room = None\<rparr>, content = ''var a = 1 + 2'', lines = [], c = [], err = None\<rparr>,
      Some (LineError 1 ''unsupported value: ''))
   \<and> handleValueSpec
     \<lparr>Names = [\<lparr>NamePos = 5, Name = ''a'', Obj = Some Var\<rparr>, \<lparr>NamePos = 8, Name = ''b'', Obj = Some Var\<rparr>],
       Type = None, Values = [BasicLit 12 tok_INT ''1'', BasicLit 15 tok_INT ''2'']\<rparr>
     \<lparr>out = \<lparr>written = [], room = None\<rparr>, content = ''var a, b = 1, 2'', lines = [], c = [], err = None\<rparr>
   = (\<lparr>out = \<lparr>written = [], room = None\<rparr>, content = ''var a, b = 1, 2'', lines = [], c = [], err = None\<rparr>,
      Some (LineError 1 ''unsupported # of values: [a b]''))"
proof -
  let ?v1 = "\<lparr>Names = [\<lparr>NamePos = 5, Name = ''a'', Obj = Some Var\<rparr>], Type = None,
       Values = [BinaryExpr (BasicLit 9 tok_INT ''1'') (tok_Other ''+'') (BasicLit 13 tok_INT ''2'')]\<rparr>"
  let ?v2 = "\<lparr>Names = [\<lparr>NamePos = 5, Name = ''a'', Obj = Some Var\<rparr>, \<lparr>NamePos = 8, Name = ''b'', Obj = Some Var\<rparr>],
       Type = None, Values = [BasicLit 12 tok_INT ''1'', BasicLit 15 tok_INT ''2'']\<rparr>"
  have n1: "Names ?v1 \<noteq> []" and n2: "Names ?v2 \<noteq> []" by simp_all
  have h1: "length (Values ?v1) > 1 \<or> (\<exists>v. Values ?v1 = [v] \<and> (\<forall>p k t. v \<noteq> BasicLit p k t))"
    by simp
  have h2: "length (Values ?v2) > 1 \<or> (\<exists>v. Values ?v2 = [v] \<and> (\<forall>p k t. v \<noteq> BasicLit p k t))"
    by simp
  from unsupported_initializer[OF n1 h1] unsupported_initializer[OF n2 h2]
  show ?thesis by (simp add: findLine_def formatNames_def)
qed

text \<open>The declaration \<^verbatim>\<open>var a, b int\<close> binds two names: no error, two lines.\<close>

theorem two_names_counterexample:
  "handleValueSpec
     \<lparr>Names = [\<lparr>NamePos = 5, Name = ''a'', Obj = Some Var\<rparr>, \<lparr>NamePos = 8, Name = ''b'', Obj = Some Var\<rparr>],
       Type = Some (Ident \<lparr>NamePos = 10, Name = ''int'', Obj = None\<rparr>), Values = []\<rparr>
     \<lparr>out = \<lparr>written = [], room = None\<rparr>, content = ''var a, b int'', lines = [], c = [], err = None\<rparr>
   = (\<lparr>out = \<lparr>written = ''int a = 0;\<newline>int b = 0;\<newline>'', room = None\<rparr>,
        content = ''var a, b int'', lines = [], c = [], err = None\<rparr>, None)"
  by (simp add: handleValueSpec_def guessType_def isValueConst_def ValueSpec_Pos_def
      andThen_def Writef_def Write_def declLine_def)


lemma Transpile_first_spec_fails:
  assumes "\<And>outp. handleValueSpec vs outp = (outp, Some e)"
  shows "snd (Transpile w src (Inr \<lparr>Imports = [], Decls = GenDecl d (ValueSpec vs # specs) # ds,
            Comments = cs\<rparr>)) = Some e"
  by (simp add: Transpile_def handleGenDecl_def andThen_def assms)




lemma takeWhile_dropWhile_Nil: "takeWhile P (dropWhile P xs) = []"
  by (induction xs) simp_all

lemma dropWhile_none: "takeWhile P xs = [] \<Longrightarrow> dropWhile P xs = xs"
  by (cases xs) (auto split: if_splits)

lemma Writef_settled:
  assumes "good outp" and "takeWhile (before p) (c outp) = []"
  shows "Writef (Some p) t outp = (outp\<lparr>out := (out outp)\<lparr>written := written (out outp) @ t\<rparr>\<rparr>, None)"
proof -
  from assms(2) have "dropWhile (before p) (c outp) = c outp"
    by (rule dropWhile_none)
  with assms show ?thesis
    by (simp add: good_def Writef_unbounded commentText_def)
qed

lemma declLine_text:
  "declLine typ lit = (\<lambda>name. typ @ '' '' @ Name name @ '' = '' @ lit @ '';\<newline>'')"
  by (rule ext) (simp add: declLine_def)

lemma Writef_after_error: "err outp \<noteq> None \<Longrightarrow> Writef n t outp = (outp, None)"
  by (auto simp: Writef_def)

lemma writeDecls_after_error:
  "err outp \<noteq> None \<Longrightarrow> writeDecls n typ lit names outp = (outp, None)"
  by (induction names) (simp_all add: andThen_def Writef_after_error)

lemma writeDecls_settled:
  assumes "\<forall>g\<in>set (c outp). List g \<noteq> []" and "takeWhile (before p) (c outp) = []"
    and "err (fst (writeDecls (Some p) typ lit names outp)) = None"
  shows "written (out (fst (writeDecls (Some p) typ lit names outp))) =
           written (out outp) @ concat (map (declLine typ lit) names)
         \<and> snd (writeDecls (Some p) typ lit names outp) = None"
  using assms
proof (induction names arbitrary: outp)
  case Nil
  then show ?case by simp
next
  case (Cons name names)
  obtain o1 e1 where w: "Writef (Some p) (declLine typ lit name) outp = (o1, e1)"
    by fastforce
  have e: "err o1 = None"
  proof (rule ccontr)
    assume "err o1 \<noteq> None"
    then have "err (fst (writeDecls (Some p) typ lit (name # names) outp)) \<noteq> None"
      using w by (cases e1) (simp_all add: andThen_def writeDecls_after_error)
    with Cons.prems(3) show False by simp
  qed
  with w have e': "err (fst (Writef (Some p) (declLine typ lit name) outp)) = None"
    by simp
  from Writef_written[OF e' Cons.prems(1)] w Cons.prems(2)
  have 1: "written (out o1) = written (out outp) @ declLine typ lit name"
    and 2: "c o1 = c outp" and 3: "e1 = None"
    by (simp_all add: commentText_def dropWhile_none)
  from w 3 have r: "writeDecls (Some p) typ lit (name # names) outp = writeDecls (Some p) typ lit names o1"
    by (simp add: andThen_def)
  with Cons.prems 2 have "written (out (fst (writeDecls (Some p) typ lit names o1))) =
           written (out o1) @ concat (map (declLine typ lit) names)
         \<and> snd (writeDecls (Some p) typ lit names o1) = None"
    by (intro Cons.IH) simp_all
  with r 1 show ?case by simp
qed

lemma writeDecls_written:
  assumes "\<forall>g\<in>set (c outp). List g \<noteq> []" and "names \<noteq> []"
    and "err (fst (writeDecls (Some p) typ lit names outp)) = None"
  shows "written (out (fst (writeDecls (Some p) typ lit names outp))) =
           written (out outp) @ commentText (takeWhile (before p) (c outp))
           @ concat (map (declLine typ lit) names)"
proof -
  from assms(2) obtain name rest where n: "names = name # rest"
    by (cases names) auto
  obtain o1 e1 where w: "Writef (Some p) (declLine typ lit name) outp = (o1, e1)"
    by fastforce
  have e: "err o1 = None"
  proof (rule ccontr)
    assume "err o1 \<noteq> None"
    then have "err (fst (writeDecls (Some p) typ lit (name # rest) outp)) \<noteq> None"
      using w by (cases e1) (simp_all add: andThen_def writeDecls_after_error)
    with assms(3) n show False by simp
  qed
  with w have e': "err (fst (Writef (Some p) (declLine typ lit name) outp)) = None"
    by simp
  from Writef_written[OF e' assms(1)] w
  have 1: "written (out o1) = written (out outp) @ commentText (takeWhile (before p) (c outp))
            @ declLine typ lit name"
    and 2: "c o1 = dropWhile (before p) (c outp)" and 3: "e1 = None"
    by simp_all
  from w 3 have r: "writeDecls (Some p) typ lit (name # rest) outp = writeDecls (Some p) typ lit rest o1"
    by (simp add: andThen_def)
  have "set (dropWhile (before p) (c outp)) \<subseteq> set (c outp)"
    by (auto dest: set_dropWhileD)
  with assms(1) 2 have wf: "\<forall>g\<in>set (c o1). List g \<noteq> []"
    by auto
  have t: "takeWhile (before p) (c o1) = []"
    using 2 by (simp add: takeWhile_dropWhile_Nil)
  from assms(3) n r have "err (fst (writeDecls (Some p) typ lit rest o1)) = None"
    by simp
  from writeDecls_settled[OF wf t this] r 1 n show ?thesis
    by simp
qed

text \<open>
  Claim C7.  When \<^verbatim>\<open>handleValueSpec\<close> accepts a value spec (it returns no error, and no
  write has failed), the spec binds at least one name and the text written is the pending
  comments that start before the spec, followed by one line per name, in the order of
  the names: the type token, the name, \<open>=\<close>, the literal and \<open>;\<close>, the same type token and
  literal on every line.  So a spec with \<open>N\<close> names gives exactly \<open>N\<close> lines.
\<close>

theorem declaration_fan_out:
  assumes "\<forall>g\<in>set (c outp). List g \<noteq> []"
    and "snd (handleValueSpec vs outp) = None"
    and "err (fst (handleValueSpec vs outp)) = None"
  shows "\<exists>kind lit isConst p.
     guessType vs = (kind, lit, None) \<and> isValueConst vs = Inr isConst
     \<and> ValueSpec_Pos vs = Some p \<and> tokenStr kind isConst \<noteq> [] \<and> Names vs \<noteq> []
     \<and> written (out (fst (handleValueSpec vs outp))) =
         written (out outp) @ commentText (takeWhile (before p) (c outp))
         @ concat (map (\<lambda>name. tokenStr kind isConst @ '' '' @ Name name @ '' = '' @ lit
                          @ '';\<newline>'') (Names vs))
     \<and> length (map (\<lambda>name. tokenStr kind isConst @ '' '' @ Name name @ '' = '' @ lit
                          @ '';\<newline>'') (Names vs)) = length (Names vs)"
proof -
  obtain kind lit ge where g: "guessType vs = (kind, lit, ge)"
    by (cases "guessType vs") auto
  have names: "Names vs \<noteq> []"
    using assms(2) by (auto simp: handleValueSpec_def)
  then obtain n ns where n: "Names vs = n # ns"
    by (cases "Names vs") auto
  then have pos: "ValueSpec_Pos vs = Some (NamePos n)"
    by (simp add: ValueSpec_Pos_def)
  have ge: "ge = None"
    using assms(2) names g
    by (cases ge) (auto simp: handleValueSpec_def split: error.splits)
  obtain isConst where ic: "isValueConst vs = Inr isConst"
    using assms(2) names g ge
    by (cases "isValueConst vs") (auto simp: handleValueSpec_def)
  have ty: "tokenStr kind isConst \<noteq> []"
    using assms(2) names g ge ic
    by (auto simp: handleValueSpec_def Let_def split: if_splits)
  have h: "handleValueSpec vs outp =
      writeDecls (Some (NamePos n)) (tokenStr kind isConst) lit (Names vs) outp"
    using names g ge ic ty pos by (simp add: handleValueSpec_def Let_def)
  with assms(3)
  have "err (fst (writeDecls (Some (NamePos n)) (tokenStr kind isConst) lit (Names vs) outp)) = None"
    by simp
  from writeDecls_written[OF assms(1) names this] h
  have "written (out (fst (handleValueSpec vs outp))) =
         written (out outp) @ commentText (takeWhile (before (NamePos n)) (c outp))
         @ concat (map (declLine (tokenStr kind isConst) lit) (Names vs))"
    by simp
  then have "written (out (fst (handleValueSpec vs outp))) =
         written (out outp) @ commentText (takeWhile (before (NamePos n)) (c outp))
         @ concat (map (\<lambda>name. tokenStr kind isConst @ '' '' @ Name name @ '' = '' @ lit
                          @ '';\<newline>'') (Names vs))"
    by (simp add: declLine_text)
  with g ge ic pos ty names show ?thesis
    by auto
qed

theorem declaration_fan_out_witness:
  "written (out (fst (handleValueSpec
     \<lparr>Names = [\<lparr>NamePos = 5, Name = ''a'', Obj = Some Var\<rparr>, \<lparr>NamePos = 8, Name = ''b'', Obj = Some Var\<rparr>,
               \<lparr>NamePos = 11, Name = ''d'', Obj = Some Var\<rparr>],
       Type = Some (Ident \<lparr>NamePos = 13, Name = ''int'', Obj = None\<rparr>), Values = []\<rparr>
     \<lparr>out = \<lparr>written = [], room = Some 100\<rparr>, content = ''var a, b, d int'', lines = [],
       c = [\<lparr>List = [\<lparr>Slash = 1, Text = ''// x''\<rparr>]\<rparr>], err = None\<rparr>)))
   = ''// x\<newline>int a = 0;\<newline>int b = 0;\<newline>int d = 0;\<newline>''"
proof -
  let ?vs = "\<lparr>Names = [\<lparr>NamePos = 5, Name = ''a'', Obj = Some Var\<rparr>, \<lparr>NamePos = 8, Name = ''b'', Obj = Some Var\<rparr>,
               \<lparr>NamePos = 11, Name = ''d'', Obj = Some Var\<rparr>],
       Type = Some (Ident \<lparr>NamePos = 13, Name = ''int'', Obj = None\<rparr>), Values = []\<rparr>"
  let ?o = "\<lparr>out = \<lparr>written = [], room = Some 100\<rparr>, content = ''var a, b, d int'', lines = [],
       c = [\<lparr>List = [\<lparr>Slash = 1, Text = ''// x''\<rparr>]\<rparr>], err = None\<rparr>"
  have h1: "\<forall>g\<in>set (c ?o). List g \<noteq> []"
    by simp
  have h2: "snd (handleValueSpec ?vs ?o) = None" and h3: "err (fst (handleValueSpec ?vs ?o)) = None"
    by (simp_all add: handleValueSpec_def guessType_def isValueConst_def ValueSpec_Pos_def
        andThen_def Writef_def Write_def CommentGroup_Pos_def Let_def declLine_def)
  from declaration_fan_out[OF h1 h2 h3] show ?thesis
    by (auto simp: guessType_def isValueConst_def ValueSpec_Pos_def before_def
        CommentGroup_Pos_def commentText_def commentLines_def)
qed


section \<open>Properties of the statements\<close>

lemma andThen_ok: "f outp = (o1, None) \<Longrightarrow> andThen f g outp = g o1"
  by (simp add: andThen_def)

text \<open>
  Claim C9, as the code has it.  The type token of a definition is \<^verbatim>\<open>typeFromExpr\<close> of the
  right-hand side: for a literal the non-const C spelling of its kind, for a bare
  identifier the text of that identifier, and for every other expression (a binary
  expression of two identifiers included) the empty text.  For a definition of one
  identifier from one expression on an output in its regular state, the text written
  starts with the pending comments before the statement, the indentation, the token, a
  space, the target and \<open> = \<close>.
\<close>

theorem define_type_token:
  "typeFromExpr (BasicLit q kind v) = tokenStr kind False
   \<and> typeFromExpr (Ident j) = Name j
   \<and> ((\<forall>q kind v. r \<noteq> BasicLit q kind v) \<and> (\<forall>j. r \<noteq> Ident j) \<longrightarrow> typeFromExpr r = [])
   \<and> (good outp \<longrightarrow>
        prefix (written (out outp) @ commentText (takeWhile (before (NamePos i)) (c outp))
                  @ ''  '' @ typeFromExpr r @ '' '' @ Name i @ '' = '')
          (written (out (fst (handleStmt (AssignStmt [Ident i] tok_DEFINE [r]) outp)))))"
proof -
  have 3: "typeFromExpr r = []" if "\<forall>q kind v. r \<noteq> BasicLit q kind v" "\<forall>j. r \<noteq> Ident j"
    using that by (cases r) simp_all
  have 4: "prefix (written (out outp) @ commentText (takeWhile (before (NamePos i)) (c outp))
                  @ ''  '' @ typeFromExpr r @ '' '' @ Name i @ '' = '')
          (written (out (fst (handleStmt (AssignStmt [Ident i] tok_DEFINE [r]) outp))))"
    if g: "good outp"
  proof -
    let ?p = "NamePos i"
    let ?w0 = "written (out outp) @ commentText (takeWhile (before ?p) (c outp))"
    let ?st = "\<lambda>x. outp\<lparr>out := (out outp)\<lparr>written := x\<rparr>, c := dropWhile (before ?p) (c outp)\<rparr>"
    have gs: "good (?st x)" for x
    proof -
      have "set (dropWhile (before ?p) (c outp)) \<subseteq> set (c outp)"
        by (auto dest: set_dropWhileD)
      with g show ?thesis by (auto simp: good_def)
    qed
    have ts: "takeWhile (before ?p) (c (?st x)) = []" for x
      by (simp add: takeWhile_dropWhile_Nil)
    have w: "Writef (Some ?p) t (?st x) = (?st (x @ t), None)" for x t
      using Writef_settled[of "?st x" ?p t] gs[of x] ts[of x] by simp
    have 1: "Writef (Some ?p) ''  '' outp = (?st (?w0 @ ''  ''), None)"
      using g by (simp add: good_def Writef_unbounded)
    have 2: "handleLhs (Some ?p) tok_DEFINE [Ident i] [r] (?st (?w0 @ ''  ''))
        = (?st (?w0 @ ''  '' @ typeFromExpr r @ '' '' @ Name i), None)"
      using w[of "typeFromExpr r @ '' ''" "?w0 @ ''  ''"]
        w[of "Name i" "?w0 @ ''  '' @ typeFromExpr r @ '' ''"]
      by (simp add: andThen_def)
    have 3: "Writef (Some ?p) '' = '' (?st (?w0 @ ''  '' @ typeFromExpr r @ '' '' @ Name i))
        = (?st (?w0 @ ''  '' @ typeFromExpr r @ '' '' @ Name i @ '' = ''), None)"
      using w[of "'' = ''" "?w0 @ ''  '' @ typeFromExpr r @ '' '' @ Name i"] by simp
    let ?o4 = "?st (?w0 @ ''  '' @ typeFromExpr r @ '' '' @ Name i @ '' = '')"
    let ?k3 = "andThen (handleList [r]) (Writef (Some ?p) ('';'' @ [CHR 0x0A]))"
    let ?k2 = "andThen (Writef (Some ?p) '' = '') ?k3"
    let ?k1 = "andThen (handleLhs (Some ?p) tok_DEFINE [Ident i] [r]) ?k2"
    have "handleStmt (AssignStmt [Ident i] tok_DEFINE [r]) outp
        = andThen (Writef (Some ?p) ''  '') ?k1 outp"
      unfolding handleStmt.simps[of "AssignStmt [Ident i] tok_DEFINE [r]"] Stmt.case Stmt_Pos.simps
      by simp
    also have "\<dots> = ?k1 (?st (?w0 @ ''  ''))"
      by (rule andThen_ok[of "Writef (Some ?p) ''  ''" outp, OF 1])
    also have "\<dots> = ?k2 (?st (?w0 @ ''  '' @ typeFromExpr r @ '' '' @ Name i))"
      by (rule andThen_ok[of "handleLhs (Some ?p) tok_DEFINE [Ident i] [r]" "?st (?w0 @ ''  '')", OF 2])
    also have "\<dots> = ?k3 ?o4"
      by (rule andThen_ok[of "Writef (Some ?p) '' = ''"
            "?st (?w0 @ ''  '' @ typeFromExpr r @ '' '' @ Name i)", OF 3])
    finally have "handleStmt (AssignStmt [Ident i] tok_DEFINE [r]) outp = ?k3 ?o4" .
    moreover have "follows ?o4 (fst (andThen (handleList [r]) (Writef (Some ?p) ('';'' @ [CHR 0x0A])) ?o4))"
      by (intro andThen_follows handleList_follows Writef_follows)
    ultimately have "prefix (written (out ?o4))
        (written (out (fst (handleStmt (AssignStmt [Ident i] tok_DEFINE [r]) outp))))"
      by (simp add: follows_def)
    then show ?thesis by simp
  qed
  from 3 4 show ?thesis by simp
qed


theorem define_type_token_witness:
  "typeFromExpr (BasicLit 6 tok_INT ''2'') = ''int''
   \<and> typeFromExpr (Ident \<lparr>NamePos = 6, Name = ''y'', Obj = None\<rparr>) = ''y''
   \<and> typeFromExpr (BinaryExpr (Ident \<lparr>NamePos = 6, Name = ''y'', Obj = None\<rparr>) (tok_Other ''+'')
                       (Ident \<lparr>NamePos = 10, Name = ''z'', Obj = None\<rparr>)) = []
   \<and> prefix ''// c\<newline>  y x = ''
        (written (out (fst (handleStmt
           (AssignStmt [Ident \<lparr>NamePos = 11, Name = ''x'', Obj = None\<rparr>] tok_DEFINE
              [Ident \<lparr>NamePos = 16, Name = ''y'', Obj = None\<rparr>])
           \<lparr>out = \<lparr>written = [], room = None\<rparr>, content = [], lines = [],
             c = [\<lparr>List = [\<lparr>Slash = 3, Text = ''// c''\<rparr>]\<rparr>], err = None\<rparr>))))"
proof -
  let ?y = "\<lparr>NamePos = 6, Name = ''y'', Obj = None\<rparr>"
  let ?b = "BinaryExpr (Ident ?y) (tok_Other ''+'') (Ident \<lparr>NamePos = 10, Name = ''z'', Obj = None\<rparr>)"
  let ?x = "\<lparr>NamePos = 11, Name = ''x'', Obj = None\<rparr>"
  let ?r = "Ident \<lparr>NamePos = 16, Name = ''y'', Obj = None\<rparr>"
  let ?o = "\<lparr>out = \<lparr>written = [], room = None\<rparr>, content = [], lines = [],
             c = [\<lparr>List = [\<lparr>Slash = 3, Text = ''// c''\<rparr>]\<rparr>], err = None\<rparr>"
  have h1: "(\<forall>q kind v. ?b \<noteq> BasicLit q kind v) \<and> (\<forall>j. ?b \<noteq> Ident j)"
    by simp
  have h2: "good ?o"
    by (simp add: good_def)
  from define_type_token[of 6 tok_INT "''2''" ?y ?b ?o ?x] h1
  have 1: "typeFromExpr (BasicLit 6 tok_INT ''2'') = tokenStr tok_INT False
     \<and> typeFromExpr (Ident ?y) = Name ?y \<and> typeFromExpr ?b = []"
    by blast
  from define_type_token[of 6 tok_INT "''2''" ?y ?r ?o ?x] h2
  have 2: "prefix (written (out ?o) @ commentText (takeWhile (before (NamePos ?x)) (c ?o))
                  @ ''  '' @ typeFromExpr ?r @ '' '' @ Name ?x @ '' = '')
          (written (out (fst (handleStmt (AssignStmt [Ident ?x] tok_DEFINE [?r]) ?o))))"
    by blast
  have "written (out ?o) @ commentText (takeWhile (before (NamePos ?x)) (c ?o))
                  @ ''  '' @ typeFromExpr ?r @ '' '' @ Name ?x @ '' = '' = ''// c\<newline>  y x = ''"
    by (simp add: before_def CommentGroup_Pos_def commentText_def commentLines_def)
  with 1 2 show ?thesis
    by (simp del: handleStmt.simps)
qed

text \<open>The definition \<^verbatim>\<open>brightness := brightness + fadeAmount\<close>: the right-hand side is a
  binary expression, the type token is empty, and the line starts with three spaces.\<close>

theorem define_binary_counterexample:
  "typeFromExpr (BinaryExpr (Ident \<lparr>NamePos = 15, Name = ''brightness'', Obj = None\<rparr>)
       (tok_Other ''+'') (Ident \<lparr>NamePos = 28, Name = ''fadeAmount'', Obj = None\<rparr>)) = []
   \<and> handleStmt
       (AssignStmt [Ident \<lparr>NamePos = 1, Name = ''brightness'', Obj = None\<rparr>] tok_DEFINE
          [BinaryExpr (Ident \<lparr>NamePos = 15, Name = ''brightness'', Obj = None\<rparr>)
             (tok_Other ''+'') (Ident \<lparr>NamePos = 28, Name = ''fadeAmount'', Obj = None\<rparr>)])
       \<lparr>out = \<lparr>written = [], room = None\<rparr>, content = [], lines = [], c = [], err = None\<rparr>
     = (\<lparr>out = \<lparr>written = ''   brightness = brightness+fadeAmount;\<newline>'', room = None\<rparr>,
          content = [], lines = [], c = [], err = None\<rparr>, None)"
  by (simp add: andThen_def Writef_def Write_def)


lemma safeI: "(\<And>outp. good outp \<Longrightarrow> snd (f outp) = None \<and> good (fst (f outp))) \<Longrightarrow> safe f"
  by (simp add: safe_def)

lemma safe_Writef: "safe (Writef (Some p) t)"
  by (simp add: safe_def Writef_no_error Writef_good)

lemma safe_skip: "safe (\<lambda>o'. (o', None))"
  by (simp add: safe_def)

lemma safe_andThen:
  assumes "safe f" and "safe g"
  shows "safe (andThen f g)"
proof (rule safeI)
  fix outp
  assume g: "good outp"
  obtain o1 e1 where f: "f outp = (o1, e1)" by fastforce
  with assms(1) g have "e1 = None" and "good o1"
    by (auto simp: safe_def)
  with assms(2) f show "snd (andThen f g outp) = None \<and> good (fst (andThen f g outp))"
    by (simp add: andThen_def safe_def)
qed

lemma safe_handleExpr:
  assumes "\<forall>o'. good o' \<longrightarrow> snd (handleExpr x o') = None"
  shows "safe (handleExpr x)"
  using assms handleExpr_follows[of _ x] by (auto simp: safe_def follows_def)

lemma handleMore_unfold:
  "handleMore (e # es) = andThen (Writef (Some (Expr_Pos e)) '', '')
       (andThen (handleExpr e) (handleMore es))"
  by (rule ext) simp

lemma handleList_unfold: "handleList (e # es) = andThen (handleExpr e) (handleMore es)"
  by (rule ext) simp

lemma safe_handleMore:
  assumes "\<forall>x\<in>set es. safe (handleExpr x)"
  shows "safe (handleMore es)"
  using assms
proof (induction es)
  case Nil
  have "handleMore [] = (\<lambda>o'. (o', None))" by (rule ext) simp
  then show ?case by (simp add: safe_skip)
next
  case (Cons e es)
  then show ?case
    unfolding handleMore_unfold
    by (intro safe_andThen safe_Writef) simp_all
qed

lemma safe_handleList:
  assumes "\<forall>x\<in>set es. safe (handleExpr x)"
  shows "safe (handleList es)"
proof (cases es)
  case Nil
  have "handleList [] = (\<lambda>o'. (o', None))" by (rule ext) simp
  with Nil show ?thesis by (simp add: safe_skip)
next
  case (Cons e es')
  with assms show ?thesis
    unfolding Cons handleList_unfold
    by (intro safe_andThen safe_handleMore) simp_all
qed

lemma safe_handleLhs:
  assumes "\<forall>x\<in>set lhs. safe (handleExpr x)" and "rhs \<noteq> []"
  shows "safe (handleLhs (Some p) tok lhs rhs)"
proof (cases lhs)
  case Nil
  have "handleLhs (Some p) tok [] rhs = (\<lambda>o'. (o', None))" by (rule ext) simp
  with Nil show ?thesis by (simp add: safe_skip)
next
  case (Cons l ls)
  from assms(2) obtain r rs where r: "rhs = r # rs" by (cases rhs) auto
  have u: "handleLhs (Some p) tok (l # ls) (r # rs) =
     andThen (if tok = tok_DEFINE then Writef (Some p) (typeFromExpr r @ '' '') else (\<lambda>o'. (o', None)))
       (andThen (handleExpr l) (handleMore ls))"
    by (rule ext) simp
  have "safe (if tok = tok_DEFINE then Writef (Some p) (typeFromExpr r @ '' '') else (\<lambda>o'. (o', None)))"
    by (simp add: safe_Writef safe_skip)
  with assms(1) show ?thesis
    unfolding Cons r u
    by (intro safe_andThen safe_handleMore) simp_all
qed

lemma handleStmt_assign:
  assumes "tok = tok_ASSIGN \<or> tok = tok_DEFINE"
  shows "handleStmt (AssignStmt (l # ls) tok rhs) =
     andThen (Writef (Some (Expr_Pos l)) ''  '')
       (andThen (handleLhs (Some (Expr_Pos l)) tok (l # ls) rhs)
          (andThen (Writef (Some (Expr_Pos l)) '' = '')
             (andThen (handleList rhs) (Writef (Some (Expr_Pos l)) '';\<newline>''))))"
proof (rule ext)
  fix outp
  from assms have n: "\<not> (tok \<noteq> tok_DEFINE \<and> tok \<noteq> tok_ASSIGN)" by auto
  show "handleStmt (AssignStmt (l # ls) tok rhs) outp =
     andThen (Writef (Some (Expr_Pos l)) ''  '')
       (andThen (handleLhs (Some (Expr_Pos l)) tok (l # ls) rhs)
          (andThen (Writef (Some (Expr_Pos l)) '' = '')
             (andThen (handleList rhs) (Writef (Some (Expr_Pos l)) '';\<newline>'')))) outp"
    unfolding handleStmt.simps[of "AssignStmt (l # ls) tok rhs"] Stmt.case Stmt_Pos.simps
      if_not_P[OF n]
    by simp
qed

lemma handleStmt_return:
  "handleStmt (ReturnStmt p results) =
     andThen (Writef (Some p) ''  '')
       (andThen (Writef (Some p) ''return '')
          (andThen (handleList results) (Writef (Some p) '';\<newline>'')))"
proof (rule ext)
  fix outp
  show "handleStmt (ReturnStmt p results) outp =
     andThen (Writef (Some p) ''  '')
       (andThen (Writef (Some p) ''return '')
          (andThen (handleList results) (Writef (Some p) '';\<newline>''))) outp"
    unfolding handleStmt.simps[of "ReturnStmt p results"] Stmt.case Stmt_Pos.simps
    by simp
qed


lemma emitsI:
  "(\<And>outp. good outp \<Longrightarrow> c outp = [] \<Longrightarrow> f outp = (emit t outp, None)) \<Longrightarrow> emits f t"
  by (simp add: emits_def)

lemma emit_regular: "good outp \<Longrightarrow> c outp = [] \<Longrightarrow> good (emit t outp) \<and> c (emit t outp) = []"
  by (simp add: emit_def good_def)

lemma emit_emit: "emit t (emit s outp) = emit (s @ t) outp"
  by (simp add: emit_def)

lemma emits_Writef: "emits (Writef n t) t"
proof (rule emitsI)
  fix outp
  assume g: "good outp" and e: "c outp = []"
  have "outp\<lparr>out := w, c := []\<rparr> = outp\<lparr>out := w\<rparr>" for w
    using e by (cases outp) simp
  with g e show "Writef n t outp = (emit t outp, None)"
    by (simp add: Writef_def good_def Write_unbounded emit_def)
qed

lemma emits_skip: "emits (\<lambda>o'. (o', None)) []"
  by (simp add: emits_def emit_def)

lemma emits_andThen:
  assumes "emits f s" and "emits g t"
  shows "emits (andThen f g) (s @ t)"
proof (rule emitsI)
  fix outp
  assume g: "good outp" and e: "c outp = []"
  with assms(1) have f: "f outp = (emit s outp, None)"
    by (simp add: emits_def)
  from emit_regular[OF g e, of s] assms(2) have "g (emit s outp) = (emit t (emit s outp), None)"
    by (simp add: emits_def)
  with f show "andThen f g outp = (emit (s @ t) outp, None)"
    by (simp add: andThen_def emit_emit)
qed

lemma emits_handleMore:
  assumes "\<forall>x\<in>set es. emits (handleExpr x) (txt x)"
  shows "emits (handleMore es) (concat (map (\<lambda>x. '', '' @ txt x) es))"
  using assms
proof (induction es)
  case Nil
  have "handleMore [] = (\<lambda>o'. (o', None))" by (rule ext) simp
  then show ?case by (simp add: emits_skip)
next
  case (Cons e es)
  have "emits (andThen (Writef (Some (Expr_Pos e)) '', '') (andThen (handleExpr e) (handleMore es)))
     ('', '' @ txt e @ concat (map (\<lambda>x. '', '' @ txt x) es))"
    using Cons by (intro emits_andThen emits_Writef) simp_all
  then show ?case
    unfolding handleMore_unfold by simp
qed

lemma strings_Join_Cons: "strings_Join (x # xs) sep = x @ concat (map (\<lambda>y. sep @ y) xs)"
  by (induction xs arbitrary: x) simp_all

lemma emits_handleList:
  assumes "\<forall>x\<in>set es. emits (handleExpr x) (txt x)"
  shows "emits (handleList es) (strings_Join (map txt es) '', '')"
proof (cases es)
  case Nil
  have "handleList [] = (\<lambda>o'. (o', None))" by (rule ext) simp
  with Nil show ?thesis by (simp add: emits_skip)
next
  case (Cons e es')
  have "emits (andThen (handleExpr e) (handleMore es'))
     (txt e @ concat (map (\<lambda>x. '', '' @ txt x) es'))"
    using assms Cons by (intro emits_andThen emits_handleMore) simp_all
  then show ?thesis
    unfolding Cons handleList_unfold by (simp add: strings_Join_Cons comp_def)
qed

lemma emits_handleLhs:
  assumes "\<forall>x\<in>set lhs. emits (handleExpr x) (txt x)" and "lhs \<noteq> []" and "rhs \<noteq> []"
  shows "emits (handleLhs n tok lhs rhs)
     ((if tok = tok_DEFINE then typeFromExpr (hd rhs) @ '' '' else []) @ strings_Join (map txt lhs) '', '')"
proof -
  from assms(2) obtain l ls where l: "lhs = l # ls" by (cases lhs) auto
  from assms(3) obtain r rs where r: "rhs = r # rs" by (cases rhs) auto
  have u: "handleLhs n tok (l # ls) (r # rs) =
     andThen (if tok = tok_DEFINE then Writef n (typeFromExpr r @ '' '') else (\<lambda>o'. (o', None)))
       (andThen (handleExpr l) (handleMore ls))"
    by (rule ext) simp
  have 2: "emits (andThen (handleExpr l) (handleMore ls))
     (txt l @ concat (map (\<lambda>x. '', '' @ txt x) ls))"
    using assms(1) l by (intro emits_andThen emits_handleMore) simp_all
  show ?thesis
  proof (cases "tok = tok_DEFINE")
    case True
    have "emits (andThen (Writef n (typeFromExpr r @ '' '')) (andThen (handleExpr l) (handleMore ls)))
       ((typeFromExpr r @ '' '') @ txt l @ concat (map (\<lambda>x. '', '' @ txt x) ls))"
      by (intro emits_andThen emits_Writef 2)
    with True show ?thesis
      unfolding l r u by (simp add: strings_Join_Cons comp_def)
  next
    case False
    have "emits (andThen (\<lambda>o'. (o', None)) (andThen (handleExpr l) (handleMore ls)))
       ([] @ txt l @ concat (map (\<lambda>x. '', '' @ txt x) ls))"
      by (intro emits_andThen emits_skip 2)
    with False show ?thesis
      unfolding l r u by (simp add: strings_Join_Cons comp_def)
  qed
qed

text \<open>
  Claim C2, as the code has it.  \<^verbatim>\<open>handleStmt\<close> has no test on the number of targets or
  values of an assignment or definition.  With the token \<open>=\<close> or \<open>:=\<close>, at least one
  target and one value, and expressions that \<^verbatim>\<open>handleExpr\<close> accepts, it returns no error
  whatever the number of targets and values; and where each expression \<open>x\<close> is rendered
  as a text \<open>txt x\<close>, the statement is rendered as the indentation, for \<open>:=\<close> the type token
  of the first value and a space, the targets separated by \<open>, \<close>, then \<open> = \<close>, the values
  separated by \<open>, \<close>, and \<open>;\<close> with a newline.
\<close>

theorem assignment_any_arity:
  assumes "tok = tok_ASSIGN \<or> tok = tok_DEFINE" and "lhs \<noteq> []" and "rhs \<noteq> []"
  shows "((\<forall>x\<in>set (lhs @ rhs). safe (handleExpr x)) \<longrightarrow> safe (handleStmt (AssignStmt lhs tok rhs)))
   \<and> ((\<forall>x\<in>set (lhs @ rhs). emits (handleExpr x) (txt x)) \<longrightarrow>
        emits (handleStmt (AssignStmt lhs tok rhs))
          (''  '' @ (if tok = tok_DEFINE then typeFromExpr (hd rhs) @ '' '' else [])
             @ strings_Join (map txt lhs) '', '' @ '' = ''
             @ strings_Join (map txt rhs) '', '' @ '';\<newline>''))"
proof -
  from assms(2) obtain l ls where l: "lhs = l # ls" by (cases lhs) auto
  note u = handleStmt_assign[OF assms(1), of l ls rhs]
  have 1: "safe (handleStmt (AssignStmt lhs tok rhs))"
    if a: "\<forall>x\<in>set (lhs @ rhs). safe (handleExpr x)"
  proof -
    from a have "\<forall>x\<in>set lhs. safe (handleExpr x)" and "\<forall>x\<in>set rhs. safe (handleExpr x)"
      by simp_all
    then show ?thesis
      unfolding l u using assms(3)
      by (intro safe_andThen safe_Writef safe_handleLhs safe_handleList)
  qed
  have 2: "emits (handleStmt (AssignStmt lhs tok rhs))
          (''  '' @ (if tok = tok_DEFINE then typeFromExpr (hd rhs) @ '' '' else [])
             @ strings_Join (map txt lhs) '', '' @ '' = ''
             @ strings_Join (map txt rhs) '', '' @ '';\<newline>'')"
    if a: "\<forall>x\<in>set (lhs @ rhs). emits (handleExpr x) (txt x)"
  proof -
    from a have al: "\<forall>x\<in>set lhs. emits (handleExpr x) (txt x)"
      and ar: "\<forall>x\<in>set rhs. emits (handleExpr x) (txt x)"
      by simp_all
    have "emits (andThen (Writef (Some (Expr_Pos l)) ''  '')
       (andThen (handleLhs (Some (Expr_Pos l)) tok lhs rhs)
          (andThen (Writef (Some (Expr_Pos l)) '' = '')
             (andThen (handleList rhs) (Writef (Some (Expr_Pos l)) '';\<newline>'')))))
       (''  '' @ ((if tok = tok_DEFINE then typeFromExpr (hd rhs) @ '' '' else [])
             @ strings_Join (map txt lhs) '', '') @ '' = ''
             @ strings_Join (map txt rhs) '', '' @ '';\<newline>'')"
      by (intro emits_andThen emits_Writef emits_handleLhs[OF al assms(2) assms(3)]
          emits_handleList[OF ar])
    then show ?thesis
      unfolding l u by simp
  qed
  from 1 2 show ?thesis by blast
qed

lemma handleExpr_Ident_unfold: "handleExpr (Ident i) = Writef (Some (NamePos i)) (Name i)"
  by (rule ext) simp

lemma handleExpr_BasicLit_unfold: "handleExpr (BasicLit p kind v) = Writef (Some p) v"
  by (rule ext) simp

theorem assignment_any_arity_witness:
  "handleStmt
     (AssignStmt [Ident \<lparr>NamePos = 3, Name = ''a'', Obj = None\<rparr>, Ident \<lparr>NamePos = 6, Name = ''b'', Obj = None\<rparr>]
        tok_ASSIGN [BasicLit 10 tok_INT ''1'', BasicLit 13 tok_INT ''2''])
     \<lparr>out = \<lparr>written = [], room = None\<rparr>, content = [], lines = [], c = [], err = None\<rparr>
   = (\<lparr>out = \<lparr>written = ''  a, b = 1, 2;\<newline>'', room = None\<rparr>, content = [], lines = [], c = [],
        err = None\<rparr>, None)
   \<and> snd (handleStmt
     (AssignStmt [Ident \<lparr>NamePos = 3, Name = ''a'', Obj = None\<rparr>, Ident \<lparr>NamePos = 6, Name = ''b'', Obj = None\<rparr>]
        tok_ASSIGN [BasicLit 10 tok_INT ''1'', BasicLit 13 tok_INT ''2''])
     \<lparr>out = \<lparr>written = [], room = None\<rparr>, content = [], lines = [],
       c = [\<lparr>List = [\<lparr>Slash = 1, Text = ''// c''\<rparr>]\<rparr>], err = None\<rparr>) = None"
proof -
  let ?lhs = "[Ident \<lparr>NamePos = 3, Name = ''a'', Obj = None\<rparr>, Ident \<lparr>NamePos = 6, Name = ''b'', Obj = None\<rparr>]"
  let ?rhs = "[BasicLit 10 tok_INT ''1'', BasicLit 13 tok_INT ''2'']"
  let ?txt = "\<lambda>x. case x of Ident i \<Rightarrow> Name i | BasicLit p kind v \<Rightarrow> v | _ \<Rightarrow> []"
  let ?o = "\<lparr>out = \<lparr>written = [], room = None\<rparr>, content = [], lines = [], c = [], err = None\<rparr>"
  let ?o' = "\<lparr>out = \<lparr>written = [], room = None\<rparr>, content = [], lines = [],
       c = [\<lparr>List = [\<lparr>Slash = 1, Text = ''// c''\<rparr>]\<rparr>], err = None\<rparr>"
  have h1: "tok_ASSIGN = tok_ASSIGN \<or> tok_ASSIGN = tok_DEFINE" and h2: "?lhs \<noteq> []" and h3: "?rhs \<noteq> []"
    by simp_all
  have s: "\<forall>x\<in>set (?lhs @ ?rhs). safe (handleExpr x)"
    by (simp add: handleExpr_Ident_unfold handleExpr_BasicLit_unfold safe_Writef)
  have e: "\<forall>x\<in>set (?lhs @ ?rhs). emits (handleExpr x) (?txt x)"
    by (simp add: handleExpr_Ident_unfold handleExpr_BasicLit_unfold emits_Writef)
  from assignment_any_arity[OF h1 h2 h3, of ?txt] s e
  have 1: "safe (handleStmt (AssignStmt ?lhs tok_ASSIGN ?rhs))"
    and 2: "emits (handleStmt (AssignStmt ?lhs tok_ASSIGN ?rhs))
          (''  '' @ (if tok_ASSIGN = tok_DEFINE then typeFromExpr (hd ?rhs) @ '' '' else [])
             @ strings_Join (map ?txt ?lhs) '', '' @ '' = ''
             @ strings_Join (map ?txt ?rhs) '', '' @ '';\<newline>'')"
    by blast+
  have g: "good ?o" "c ?o = []" "good ?o'"
    by (simp_all add: good_def)
  from 1 g(3) have a: "snd (handleStmt (AssignStmt ?lhs tok_ASSIGN ?rhs) ?o') = None"
    unfolding safe_def by blast
  from 2 g(1,2) have "handleStmt (AssignStmt ?lhs tok_ASSIGN ?rhs) ?o
      = (emit (''  '' @ (if tok_ASSIGN = tok_DEFINE then typeFromExpr (hd ?rhs) @ '' '' else [])
             @ strings_Join (map ?txt ?lhs) '', '' @ '' = ''
             @ strings_Join (map ?txt ?rhs) '', '' @ '';\<newline>'') ?o, None)"
    unfolding emits_def by blast
  then have b: "handleStmt (AssignStmt ?lhs tok_ASSIGN ?rhs) ?o
      = (\<lparr>out = \<lparr>written = ''  a, b = 1, 2;\<newline>'', room = None\<rparr>, content = [], lines = [], c = [],
        err = None\<rparr>, None)"
    by (simp add: emit_def del: handleStmt.simps)
  from a b show ?thesis by (simp del: handleStmt.simps)
qed

text \<open>The assignment \<^verbatim>\<open>a, b = 1, 2\<close>, with two targets and two values: no error, and
  the statement is written.\<close>

theorem assignment_arity_counterexample:
  "handleStmt
     (AssignStmt [Ident \<lparr>NamePos = 3, Name = ''a'', Obj = None\<rparr>, Ident \<lparr>NamePos = 6, Name = ''b'', Obj = None\<rparr>]
        tok_ASSIGN [BasicLit 10 tok_INT ''1'', BasicLit 13 tok_INT ''2''])
     \<lparr>out = \<lparr>written = [], room = None\<rparr>, content = [], lines = [], c = [], err = None\<rparr>
   = (\<lparr>out = \<lparr>written = ''  a, b = 1, 2;\<newline>'', room = None\<rparr>, content = [], lines = [], c = [],
        err = None\<rparr>, None)"
  by (simp add: andThen_def Writef_def Write_def)

text \<open>
  Claim C3, as the code has it.  \<^verbatim>\<open>handleStmt\<close> has no test on the number of results of a
  return statement.  With results that \<^verbatim>\<open>handleExpr\<close> accepts it returns no error for any
  number of them, none, one or several; and where each result \<open>x\<close> is rendered as a text
  \<open>txt x\<close>, the statement is rendered as the indentation, \<open>return \<close>, the results separated
  by \<open>, \<close>, and \<open>;\<close> with a newline.
\<close>

theorem return_any_arity:
  "((\<forall>x\<in>set results. safe (handleExpr x)) \<longrightarrow> safe (handleStmt (ReturnStmt p results)))
   \<and> ((\<forall>x\<in>set results. emits (handleExpr x) (txt x)) \<longrightarrow>
        emits (handleStmt (ReturnStmt p results))
          (''  '' @ ''return '' @ strings_Join (map txt results) '', '' @ '';\<newline>''))"
proof -
  have 1: "safe (handleStmt (ReturnStmt p results))"
    if a: "\<forall>x\<in>set results. safe (handleExpr x)"
    unfolding handleStmt_return using a
    by (intro safe_andThen safe_Writef safe_handleList)
  have 2: "emits (handleStmt (ReturnStmt p results))
          (''  '' @ ''return '' @ strings_Join (map txt results) '', '' @ '';\<newline>'')"
    if a: "\<forall>x\<in>set results. emits (handleExpr x) (txt x)"
    unfolding handleStmt_return
    by (intro emits_andThen emits_Writef emits_handleList[OF a])
  from 1 2 show ?thesis by blast
qed


theorem return_any_arity_witness:
  "handleStmt
     (ReturnStmt 3 [Ident \<lparr>NamePos = 10, Name = ''a'', Obj = None\<rparr>, Ident \<lparr>NamePos = 13, Name = ''b'', Obj = None\<rparr>])
     \<lparr>out = \<lparr>written = [], room = None\<rparr>, content = [], lines = [], c = [], err = None\<rparr>
   = (\<lparr>out = \<lparr>written = ''  return a, b;\<newline>'', room = None\<rparr>, content = [], lines = [], c = [],
        err = None\<rparr>, None)
   \<and> snd (handleStmt
     (ReturnStmt 3 [Ident \<lparr>NamePos = 10, Name = ''a'', Obj = None\<rparr>, Ident \<lparr>NamePos = 13, Name = ''b'', Obj = None\<rparr>])
     \<lparr>out = \<lparr>written = [], room = None\<rparr>, content = [], lines = [],
       c = [\<lparr>List = [\<lparr>Slash = 1, Text = ''// c''\<rparr>]\<rparr>], err = None\<rparr>) = None"
proof -
  let ?rs = "[Ident \<lparr>NamePos = 10, Name = ''a'', Obj = None\<rparr>, Ident \<lparr>NamePos = 13, Name = ''b'', Obj = None\<rparr>]"
  let ?txt = "\<lambda>x. case x of Ident i \<Rightarrow> Name i | _ \<Rightarrow> []"
  let ?o = "\<lparr>out = \<lparr>written = [], room = None\<rparr>, content = [], lines = [], c = [], err = None\<rparr>"
  let ?o' = "\<lparr>out = \<lparr>written = [], room = None\<rparr>, content = [], lines = [],
       c = [\<lparr>List = [\<lparr>Slash = 1, Text = ''// c''\<rparr>]\<rparr>], err = None\<rparr>"
  have s: "\<forall>x\<in>set ?rs. safe (handleExpr x)"
    by (simp add: handleExpr_Ident_unfold safe_Writef)
  have e: "\<forall>x\<in>set ?rs. emits (handleExpr x) (?txt x)"
    by (simp add: handleExpr_Ident_unfold emits_Writef)
  from return_any_arity[of ?rs 3 ?txt] s e
  have 1: "safe (handleStmt (ReturnStmt 3 ?rs))"
    and 2: "emits (handleStmt (ReturnStmt 3 ?rs))
          (''  '' @ ''return '' @ strings_Join (map ?txt ?rs) '', '' @ '';\<newline>'')"
    by blast+
  have g: "good ?o" "c ?o = []" "good ?o'"
    by (simp_all add: good_def)
  from 1 g(3) have a: "snd (handleStmt (ReturnStmt 3 ?rs) ?o') = None"
    unfolding safe_def by blast
  from 2 g(1,2) have "handleStmt (ReturnStmt 3 ?rs) ?o
      = (emit (''  '' @ ''return '' @ strings_Join (map ?txt ?rs) '', '' @ '';\<newline>'') ?o, None)"
    unfolding emits_def by blast
  then have b: "handleStmt (ReturnStmt 3 ?rs) ?o
      = (\<lparr>out = \<lparr>written = ''  return a, b;\<newline>'', room = None\<rparr>, content = [], lines = [], c = [],
        err = None\<rparr>, None)"
    by (simp add: emit_def del: handleStmt.simps)
  from a b show ?thesis by (simp del: handleStmt.simps)
qed

text \<open>The statement \<^verbatim>\<open>return a, b\<close>, with two results: no error, and the statement is
  written.\<close>

theorem return_arity_counterexample:
  "handleStmt
     (ReturnStmt 3 [Ident \<lparr>NamePos = 10, Name = ''a'', Obj = None\<rparr>, Ident \<lparr>NamePos = 13, Name = ''b'', Obj = None\<rparr>])
     \<lparr>out = \<lparr>written = [], room = None\<rparr>, content = [], lines = [], c = [], err = None\<rparr>
   = (\<lparr>out = \<lparr>written = ''  return a, b;\<newline>'', room = None\<rparr>, content = [], lines = [], c = [],
        err = None\<rparr>, None)"
  by (simp add: andThen_def Writef_def Write_def)


end
